theory Spec2Isabelle
  imports Complex_Main "HOL-Library.AList"
begin

text \<open>
  The inventory and sell-through reports of the repository: SKU normalisation, the CSV
  reader of the sheet and the merge with the sales figures (src/api/sell-through.js), the
  per-day metrics pass (src/api/inventory-report.js, src/unnamed/part_004), the backward
  reconstruction from a snapshot (part_004), the forward accumulation of adjustments
  (part_002, part_003) and the paged fetch loops (inventory-report.js, part_004).
  The definitions come first, each next to the source it follows; the properties follow.
\<close>

section \<open>JavaScript values used by the report code\<close>

text \<open>
  Strings are lists of characters; a \<^typ>\<open>char\<close> is read as one code unit in the range
  U+0000 .. U+00FF.  \<open>null\<close> and \<open>undefined\<close> are \<^const>\<open>None\<close>.
\<close>

definition dquote :: char where
  "dquote = CHR 0x22"

definition is_space :: "char \<Rightarrow> bool" where
  \<comment> \<open>The characters that both \<open>String.prototype.trim\<close> and the regular-expression class
      \<open>\s\<close> accept, as far as they lie below U+0100: TAB, LF, VT, FF, CR, SPACE, NBSP.\<close>
  "is_space c \<longleftrightarrow> c \<in> {CHR 0x09, CHR 0x0A, CHR 0x0B, CHR 0x0C, CHR 0x0D, CHR 0x20, CHR 0xA0}"

definition trim :: "string \<Rightarrow> string" where
  "trim s = rev (dropWhile is_space (rev (dropWhile is_space s)))"

section \<open>SKU normalisation (src/api/sell-through.js)\<close>

text \<open>
  \<^verbatim>\<open>/\s*-#+\s*$/\<close> at a fixed start position: the rest of the string, up to its end, is
  white space, one hyphen, at least one \<open>#\<close>, white space.  Neither \<open>-\<close> nor \<open>#\<close> is
  white space, so the greedy reading below decides the match.
\<close>

definition suffix_matches :: "string \<Rightarrow> bool" where
  "suffix_matches r =
     (case dropWhile is_space r of
        [] \<Rightarrow> False
      | c # r2 \<Rightarrow>
          c = CHR ''-'' \<and>
          (case r2 of
             [] \<Rightarrow> False
           | h # _ \<Rightarrow> h = CHR ''#'' \<and> list_all is_space (dropWhile (\<lambda>x. x = CHR ''#'') r2)))"

text \<open>
  \<^verbatim>\<open>.replace(/\s*-#+\s*$/, "")\<close>: the start positions are tried from the left; the first one
  at which the pattern matches is where the string is cut (the match runs to the end).
\<close>

fun strip_suffix :: "string \<Rightarrow> string" where
  "strip_suffix [] = []"
| "strip_suffix (c # cs) = (if suffix_matches (c # cs) then [] else c # strip_suffix cs)"

definition normaliseSku :: "string option \<Rightarrow> string option" where
  "normaliseSku sku =
     (case sku of
        None \<Rightarrow> None
      | Some s \<Rightarrow> if s = [] then None else Some (strip_suffix (trim s)))"

text \<open>Whether the pattern matches somewhere in the string.\<close>

fun has_suffix :: "string \<Rightarrow> bool" where
  "has_suffix [] = False"
| "has_suffix (c # cs) = (suffix_matches (c # cs) \<or> has_suffix cs)"

section \<open>CSV parser (src/api/sell-through.js)\<close>

text \<open>
  The loop of \<open>parseCsv\<close> over the index \<open>i\<close>, as a recursion over the text from position
  \<open>i\<close> on; \<open>next\<close> is the head of the rest, and \<open>i++\<close> inside the body drops it.
\<close>

fun parseCsv_loop ::
  "string \<Rightarrow> string list list \<Rightarrow> string list \<Rightarrow> string \<Rightarrow> bool \<Rightarrow> string list list" where
  "parseCsv_loop [] rows row field inQuotes =
     (if field \<noteq> [] \<or> length row > 0 then rows @ [row @ [field]] else rows)"
| "parseCsv_loop [c] rows row field inQuotes =
     (if c = dquote then parseCsv_loop [] rows row field (\<not> inQuotes)
      else if c = CHR '','' \<and> \<not> inQuotes then parseCsv_loop [] rows (row @ [field]) [] inQuotes
      else if (c = CHR 0x0A \<or> c = CHR 0x0D) \<and> \<not> inQuotes then
        (if field \<noteq> [] \<or> length row > 0
         then parseCsv_loop [] (rows @ [row @ [field]]) [] [] inQuotes
         else parseCsv_loop [] rows row field inQuotes)
      else parseCsv_loop [] rows row (field @ [c]) inQuotes)"
| "parseCsv_loop (c # n # cs) rows row field inQuotes =
     (if c = dquote \<and> inQuotes \<and> n = dquote
        then parseCsv_loop cs rows row (field @ [dquote]) inQuotes
      else if c = dquote then parseCsv_loop (n # cs) rows row field (\<not> inQuotes)
      else if c = CHR '','' \<and> \<not> inQuotes
        then parseCsv_loop (n # cs) rows (row @ [field]) [] inQuotes
      else if (c = CHR 0x0A \<or> c = CHR 0x0D) \<and> \<not> inQuotes then
        (let rest = (if c = CHR 0x0D \<and> n = CHR 0x0A then cs else n # cs) in
         if field \<noteq> [] \<or> length row > 0
         then parseCsv_loop rest (rows @ [row @ [field]]) [] [] inQuotes
         else parseCsv_loop rest rows row field inQuotes)
      else parseCsv_loop (n # cs) rows row (field @ [c]) inQuotes)"

definition parseCsv :: "string \<Rightarrow> string list list" where
  "parseCsv text = parseCsv_loop text [] [] [] False"

text \<open>A field as a CSV writer quotes it: between quotes, each quote of the field doubled.\<close>

definition csv_quote :: "string \<Rightarrow> string" where
  "csv_quote f =
     dquote # concat (map (\<lambda>c. if c = dquote then [dquote, dquote] else [c]) f) @ [dquote]"

section \<open>Objects keyed by day\<close>

text \<open>
  A JavaScript object whose keys are day strings (\<open>YYYY-MM-DD\<close>) lists its keys in
  insertion order; assigning to a key that exists keeps its place.  Such an object is an
  association list, \<open>obj[k] = v\<close> is \<^const>\<open>AList.update\<close> and \<open>obj[k]\<close> is
  \<^const>\<open>map_of\<close>, with \<^const>\<open>None\<close> for \<open>undefined\<close>.

  A day sequence is the list that \<open>enumerateDays(start, end)\<close> (or the \<open>dates\<close> loop of
  \<open>computeMetrics\<close>) returns; the calendar arithmetic of \<open>Date\<close> is not modelled, the
  functions below take the list.
\<close>

type_synonym day = string
type_synonym 'v obj = "(string \<times> 'v) list"

definition or_zero :: "int option \<Rightarrow> int" where
  \<comment> \<open>\<open>x || 0\<close> and \<open>x ?? 0\<close> on an integer that may be \<open>undefined\<close> or \<open>null\<close>\<close>
  "or_zero x = (case x of None \<Rightarrow> 0 | Some v \<Rightarrow> v)"

record metrics =
  days_in_stock :: int
  stockout_days :: int
  sold_while_in_stock :: int
  total_sold :: int

definition metrics0 :: metrics where
  "metrics0 = \<lparr>days_in_stock = 0, stockout_days = 0, sold_while_in_stock = 0, total_sold = 0\<rparr>"

section \<open>Backward reconstruction and metrics (src/unnamed/part_004)\<close>

fun backward_loop :: "day list \<Rightarrow> (day \<rightharpoonup> int) \<Rightarrow> int \<Rightarrow> int obj \<Rightarrow> int obj" where
  \<comment> \<open>the loop \<open>for (i = days.length - 1; i >= 0; i--)\<close>, given the days from the last to the first\<close>
  "backward_loop [] salesForSku running inventory = inventory"
| "backward_loop (day # earlier) salesForSku running inventory =
     (let sold = or_zero (salesForSku day) in
      backward_loop earlier salesForSku (running + sold) (AList.update day running inventory))"

definition reconstructDailyInventory :: "day list \<Rightarrow> int \<Rightarrow> (day \<rightharpoonup> int) \<Rightarrow> int obj" where
  "reconstructDailyInventory days finalQty salesForSku =
     backward_loop (rev days) salesForSku finalQty
       (fold (\<lambda>d inventory. AList.update d 0 inventory) days [])"

fun calculateMetrics_loop :: "day list \<Rightarrow> int obj \<Rightarrow> (day \<rightharpoonup> int) \<Rightarrow> metrics \<Rightarrow> metrics" where
  "calculateMetrics_loop [] inventory salesForSku m = m"
| "calculateMetrics_loop (day # rest) inventory salesForSku m =
     (let qty = map_of inventory day;
          sold = or_zero (salesForSku day);
          m1 = m\<lparr>total_sold := total_sold m + sold\<rparr>
      in calculateMetrics_loop rest inventory salesForSku
           (if (case qty of None \<Rightarrow> False | Some q \<Rightarrow> q > 0)
            then m1\<lparr>days_in_stock := days_in_stock m1 + 1,
                    sold_while_in_stock := sold_while_in_stock m1 + sold\<rparr>
            else m1\<lparr>stockout_days := stockout_days m1 + 1\<rparr>))"

definition calculateMetrics :: "int obj \<Rightarrow> (day \<rightharpoonup> int) \<Rightarrow> metrics" where
  \<comment> \<open>iterates over \<open>Object.keys(inventory)\<close>\<close>
  "calculateMetrics inventory salesForSku =
     calculateMetrics_loop (map fst inventory) inventory salesForSku metrics0"

section \<open>Per-SKU pass of computeMetrics (src/api/inventory-report.js)\<close>

definition sales_key :: "day \<Rightarrow> string \<Rightarrow> string" where
  \<comment> \<open>the template string \<open>`${date}|${sku}`\<close>\<close>
  "sales_key date sku = date @ ''|'' @ sku"

definition invMap_of :: "(day \<times> int option) list \<Rightarrow> (day \<rightharpoonup> int option)" where
  \<comment> \<open>\<open>invRaw.forEach((e) => { invMap[e.date] = e.available; })\<close>; \<open>available\<close> may be \<open>null\<close>\<close>
  "invMap_of invRaw = fold (\<lambda>e invMap. invMap(fst e \<mapsto> snd e)) invRaw Map.empty"

definition nullish_or_zero :: "int option option \<Rightarrow> int" where
  \<comment> \<open>\<open>invMap[date] ?? 0\<close>: \<open>undefined\<close> (no entry) and \<open>null\<close> both give 0\<close>
  "nullish_or_zero x = (case x of Some (Some q) \<Rightarrow> q | _ \<Rightarrow> 0)"

fun computeMetrics_loop ::
  "day list \<Rightarrow> (day \<rightharpoonup> int option) \<Rightarrow> (string \<rightharpoonup> int) \<Rightarrow> string \<Rightarrow> metrics \<Rightarrow> metrics" where
  "computeMetrics_loop [] invMap sales sku m = m"
| "computeMetrics_loop (date # rest) invMap sales sku m =
     (let qtyAvail = nullish_or_zero (invMap date);
          sold = or_zero (sales (sales_key date sku));
          m1 = m\<lparr>total_sold := total_sold m + sold\<rparr>
      in computeMetrics_loop rest invMap sales sku
           (if qtyAvail > 0
            then m1\<lparr>days_in_stock := days_in_stock m1 + 1,
                    sold_while_in_stock := sold_while_in_stock m1 + sold\<rparr>
            else m1\<lparr>stockout_days := stockout_days m1 + 1\<rparr>))"

definition computeMetrics_sku ::
  "day list \<Rightarrow> (day \<times> int option) list \<Rightarrow> (string \<rightharpoonup> int) \<Rightarrow> string \<Rightarrow> metrics" where
  "computeMetrics_sku dates invRaw sales sku =
     computeMetrics_loop dates (invMap_of invRaw) sales sku metrics0"

section \<open>Forward accumulation (src/unnamed/part_002 and part_003)\<close>

fun add_adjustments_p3 :: "(day \<times> int) list \<Rightarrow> int obj \<Rightarrow> int obj" where
  \<comment> \<open>part_003: \<open>if (map[a.date] !== undefined) map[a.date] += a.delta\<close>\<close>
  "add_adjustments_p3 [] m = m"
| "add_adjustments_p3 ((date, delta) # as) m =
     add_adjustments_p3 as
       (case map_of m date of None \<Rightarrow> m | Some v \<Rightarrow> AList.update date (v + delta) m)"

definition reconstructDailyLevels_p3 :: "day list \<Rightarrow> (day \<times> int) list \<Rightarrow> int obj" where
  "reconstructDailyLevels_p3 days adjustments =
     add_adjustments_p3 adjustments (fold (\<lambda>d m. AList.update d 0 m) days [])"

fun add_adjustments_p2 :: "(day \<times> int) list \<Rightarrow> int obj \<Rightarrow> int obj" where
  \<comment> \<open>part_002: \<open>if (!daily[adj.date]) continue; daily[adj.date] += adj.delta\<close>;
      \<open>undefined\<close> and \<open>0\<close> are both falsy\<close>
  "add_adjustments_p2 [] daily = daily"
| "add_adjustments_p2 ((date, delta) # as) daily =
     add_adjustments_p2 as
       (case map_of daily date of
          None \<Rightarrow> daily
        | Some v \<Rightarrow> if v = 0 then daily else AList.update date (v + delta) daily)"

definition reconstructDailyLevels_p2 :: "day list \<Rightarrow> (day \<times> int) list \<Rightarrow> int obj" where
  "reconstructDailyLevels_p2 days adjustments =
     add_adjustments_p2 adjustments (fold (\<lambda>d daily. AList.update d 0 daily) days [])"

text \<open>The invariant that the data model states for the metrics of one SKU.\<close>

definition sku_metrics_invariant :: "nat \<Rightarrow> metrics \<Rightarrow> bool" where
  "sku_metrics_invariant windowLengthDays m \<longleftrightarrow>
     days_in_stock m + stockout_days m = int windowLengthDays \<and>
     sold_while_in_stock m \<le> total_sold m \<and>
     0 \<le> days_in_stock m \<and> 0 \<le> stockout_days m \<and>
     0 \<le> sold_while_in_stock m \<and> 0 \<le> total_sold m"

text \<open>
  The quantity at the end of each day of a window, from the quantity at its end: the
  final quantity plus what was sold on the later days.
\<close>

fun end_of_day_series :: "day list \<Rightarrow> int \<Rightarrow> (day \<rightharpoonup> int) \<Rightarrow> int obj" where
  "end_of_day_series [] finalQty salesForSku = []"
| "end_of_day_series (d # later) finalQty salesForSku =
     (d, finalQty + sum_list (map (\<lambda>x. or_zero (salesForSku x)) later))
       # end_of_day_series later finalQty salesForSku"

text \<open>The sum of the deltas of the adjustment events dated a given day.\<close>

definition deltas_on :: "day \<Rightarrow> (day \<times> int) list \<Rightarrow> int" where
  "deltas_on d adjustments = sum_list (map snd (filter (\<lambda>a. fst a = d) adjustments))"

section \<open>Numbers of the sell-through report (src/api/sell-through.js)\<close>

text \<open>
  A JavaScript number is \<open>NaN\<close> or a finite value; finite values are exact rationals.
  Rounding, the sign of zero and the infinities are left out of the model: the code only
  counts days and units, and \<open>mergeSalesAndSheet\<close> guards each of its two quotients.
\<close>

datatype jsnum = NaN | Val rat

fun js_add :: "jsnum \<Rightarrow> jsnum \<Rightarrow> jsnum" where
  "js_add (Val a) (Val b) = Val (a + b)"
| "js_add _ _ = NaN"

fun js_gt :: "jsnum \<Rightarrow> jsnum \<Rightarrow> bool" where
  \<comment> \<open>\<open>x > y\<close>; a comparison with \<open>NaN\<close> is false\<close>
  "js_gt (Val a) (Val b) = (a > b)"
| "js_gt _ _ = False"

fun js_div :: "jsnum \<Rightarrow> jsnum \<Rightarrow> jsnum" where
  \<comment> \<open>\<open>x / y\<close> for a finite non-zero \<open>y\<close>; \<open>0 / 0\<close> is \<open>NaN\<close>, and the model has no value
      for the infinite quotients \<open>x / 0\<close>, which it also maps to \<open>NaN\<close>\<close>
  "js_div (Val a) (Val b) = (if b = 0 then NaN else Val (a / b))"
| "js_div _ _ = NaN"

fun truthy :: "jsnum \<Rightarrow> bool" where
  \<comment> \<open>a number is falsy when it is \<open>0\<close> or \<open>NaN\<close>\<close>
  "truthy (Val a) = (a \<noteq> 0)"
| "truthy NaN = False"

definition num_or :: "jsnum \<Rightarrow> jsnum \<Rightarrow> jsnum" where
  \<comment> \<open>\<open>x || d\<close> on numbers\<close>
  "num_or x d = (if truthy x then x else d)"

definition num_or_null :: "jsnum \<Rightarrow> jsnum option" where
  \<comment> \<open>\<open>x || null\<close>\<close>
  "num_or_null x = (if truthy x then Some x else None)"

definition str_or :: "string \<Rightarrow> string \<Rightarrow> string" where
  \<comment> \<open>\<open>s || t\<close> on strings: the empty string is falsy\<close>
  "str_or s t = (if s \<noteq> [] then s else t)"

section \<open>Merging sales and sheet (src/api/sell-through.js)\<close>

record sales_entry =
  sales_sku :: string
  any_raw_sku :: string
  sales_total_sold_24m :: jsnum

record sheet_entry =
  sku_norm :: string
  sku_raw :: string
  product_title :: string
  variant_title :: string
  abc_grade :: string
  days_in_stock_24m :: jsnum
  days_out_of_stock_24m :: jsnum
  inventory_units_sold_csv :: "jsnum option"
  sell_through_rate_csv :: "jsnum option"
  percent_inventory_sold_csv :: "jsnum option"

text \<open>A merged item carries every field of the sheet entry and three more.\<close>

record item = sheet_entry +
  total_sold_24m :: jsnum
  in_stock_rate_24m :: "jsnum option"
  velocity_in_stock_24m :: "jsnum option"

definition merge_item :: "string \<Rightarrow> sales_entry option \<Rightarrow> sheet_entry option \<Rightarrow> item" where
  \<comment> \<open>the body of \<open>for (const sku of allSkus)\<close>\<close>
  "merge_item k salesOpt sheetOpt =
     (let sales = (case salesOpt of
                     Some s \<Rightarrow> s
                   | None \<Rightarrow> \<lparr>sales_sku = k, any_raw_sku = k, sales_total_sold_24m = Val 0\<rparr>);
          sheet = (case sheetOpt of
                     Some sh \<Rightarrow> sh
                   | None \<Rightarrow> \<lparr>sku_norm = k, sku_raw = str_or (any_raw_sku sales) k,
                              product_title = [], variant_title = [], abc_grade = [],
                              days_in_stock_24m = Val 0, days_out_of_stock_24m = Val 0,
                              inventory_units_sold_csv = None, sell_through_rate_csv = None,
                              percent_inventory_sold_csv = None\<rparr>);
          totalDays = num_or (js_add (days_in_stock_24m sheet) (days_out_of_stock_24m sheet)) (Val 0);
          inStockRate = (if js_gt totalDays (Val 0)
                         then Some (js_div (days_in_stock_24m sheet) totalDays) else None);
          velocityInStock = (if js_gt (days_in_stock_24m sheet) (Val 0)
                             then Some (js_div (sales_total_sold_24m sales) (days_in_stock_24m sheet))
                             else None)
      in \<lparr>sku_norm = k,
          sku_raw = str_or (sku_raw sheet) (str_or (any_raw_sku sales) k),
          product_title = product_title sheet,
          variant_title = variant_title sheet,
          abc_grade = abc_grade sheet,
          days_in_stock_24m = days_in_stock_24m sheet,
          days_out_of_stock_24m = days_out_of_stock_24m sheet,
          inventory_units_sold_csv = inventory_units_sold_csv sheet,
          sell_through_rate_csv = sell_through_rate_csv sheet,
          percent_inventory_sold_csv = percent_inventory_sold_csv sheet,
          total_sold_24m = sales_total_sold_24m sales,
          in_stock_rate_24m = inStockRate,
          velocity_in_stock_24m = velocityInStock\<rparr>)"

definition mergeSalesAndSheet ::
  "(string \<rightharpoonup> sales_entry) \<Rightarrow> (string \<rightharpoonup> sheet_entry) \<Rightarrow> (string \<rightharpoonup> item)" where
  \<comment> \<open>one item for every key of either input; the order of the keys is not modelled\<close>
  "mergeSalesAndSheet salesStats sheetStats =
     (\<lambda>k. if salesStats k = None \<and> sheetStats k = None then None
          else Some (merge_item k (salesStats k) (sheetStats k)))"

section \<open>Reading the sheet (src/api/sell-through.js)\<close>

datatype error = UpstreamError | TypeError | SheetEmpty | MissingColumns

fun indexOf :: "'a list \<Rightarrow> 'a \<Rightarrow> nat option" where
  \<comment> \<open>\<open>Array.prototype.indexOf\<close>, with \<^const>\<open>None\<close> for \<open>-1\<close>\<close>
  "indexOf [] x = None"
| "indexOf (y # ys) x = (if y = x then Some 0 else map_option Suc (indexOf ys x))"

definition cell :: "string list \<Rightarrow> nat option \<Rightarrow> string option" where
  \<comment> \<open>\<open>row[i]\<close>: \<open>undefined\<close> beyond the end of the row and at index \<open>-1\<close>\<close>
  "cell row i = (case i of None \<Rightarrow> None
                 | Some j \<Rightarrow> if j < length row then Some (row ! j) else None)"

fun replace_percent :: "string \<Rightarrow> string" where
  \<comment> \<open>\<open>.replace("%", "")\<close>: a string pattern removes the first occurrence only\<close>
  "replace_percent [] = []"
| "replace_percent (c # cs) = (if c = CHR ''%'' then cs else c # replace_percent cs)"

definition count_cell :: "(string \<Rightarrow> jsnum) \<Rightarrow> string option \<Rightarrow> jsnum" where
  \<comment> \<open>\<open>Number(row[i] || 0)\<close>; \<open>Number\<close> on strings is the parameter \<open>toNumber\<close>\<close>
  "count_cell toNumber c =
     (case c of None \<Rightarrow> Val 0 | Some s \<Rightarrow> if s = [] then Val 0 else toNumber s)"

definition percent_cell :: "(string \<Rightarrow> jsnum) \<Rightarrow> string option \<Rightarrow> jsnum option" where
  \<comment> \<open>\<open>Number(String(row[i]).replace("%", "")) || null\<close>\<close>
  "percent_cell toNumber c =
     num_or_null (toNumber (replace_percent (case c of None \<Rightarrow> ''undefined'' | Some s \<Rightarrow> s)))"

definition text_cell :: "string option \<Rightarrow> string" where
  \<comment> \<open>\<open>row[i] || ""\<close>\<close>
  "text_cell c = (case c of None \<Rightarrow> [] | Some s \<Rightarrow> s)"

record sheet_columns =
  col_productTitle :: "nat option"
  col_variantTitle :: "nat option"
  col_sku :: "nat option"
  col_abc :: "nat option"
  col_sellThroughRate :: "nat option"
  col_inventoryUnitsSold :: "nat option"
  col_startingUnits :: "nat option"
  col_endingUnits :: "nat option"
  col_daysInStock :: "nat option"
  col_daysOutOfStock :: "nat option"
  col_percentInventorySold :: "nat option"

definition sheet_idx :: "string list \<Rightarrow> sheet_columns" where
  "sheet_idx header =
     \<lparr>col_productTitle = indexOf header ''Product title'',
      col_variantTitle = indexOf header ''Product variant title'',
      col_sku = indexOf header ''Product variant SKU'',
      col_abc = indexOf header ''Product variant ABC grade'',
      col_sellThroughRate = indexOf header ''Sell-through rate'',
      col_inventoryUnitsSold = indexOf header ''Inventory units sold'',
      col_startingUnits = indexOf header ''Starting inventory units'',
      col_endingUnits = indexOf header ''Ending inventory units'',
      col_daysInStock = indexOf header ''Days in stock (at location)'',
      col_daysOutOfStock = indexOf header ''Days out of stock (at location)'',
      col_percentInventorySold = indexOf header ''Percent of inventory sold''\<rparr>"

definition sheet_row ::
  "(string \<Rightarrow> jsnum) \<Rightarrow> sheet_columns \<Rightarrow> string list \<Rightarrow> (string \<rightharpoonup> sheet_entry)
     \<Rightarrow> (string \<rightharpoonup> sheet_entry)" where
  \<comment> \<open>the body of \<open>for (let r = 1; r < rows.length; r++)\<close>; a \<open>continue\<close> leaves \<open>bySku\<close> as it is\<close>
  "sheet_row toNumber idx row bySku =
     (let rawSku = (case cell row (col_sku idx) of
                      None \<Rightarrow> []
                    | Some s \<Rightarrow> if s = [] then [] else trim s)
      in if rawSku = [] then bySku
         else case normaliseSku (Some rawSku) of
                None \<Rightarrow> bySku
              | Some skuNorm \<Rightarrow>
                  if skuNorm = [] then bySku
                  else bySku(skuNorm \<mapsto>
                    \<lparr>sku_norm = skuNorm,
                     sku_raw = rawSku,
                     product_title = (if col_productTitle idx = None then []
                                      else text_cell (cell row (col_productTitle idx))),
                     variant_title = (if col_variantTitle idx = None then []
                                      else text_cell (cell row (col_variantTitle idx))),
                     abc_grade = (if col_abc idx = None then []
                                  else text_cell (cell row (col_abc idx))),
                     days_in_stock_24m =
                       (if col_daysInStock idx = None then Val 0
                        else count_cell toNumber (cell row (col_daysInStock idx))),
                     days_out_of_stock_24m =
                       (if col_daysOutOfStock idx = None then Val 0
                        else count_cell toNumber (cell row (col_daysOutOfStock idx))),
                     inventory_units_sold_csv =
                       (if col_inventoryUnitsSold idx = None then None
                        else Some (count_cell toNumber (cell row (col_inventoryUnitsSold idx)))),
                     sell_through_rate_csv =
                       (if col_sellThroughRate idx = None then None
                        else percent_cell toNumber (cell row (col_sellThroughRate idx))),
                     percent_inventory_sold_csv =
                       (if col_percentInventorySold idx = None then None
                        else percent_cell toNumber (cell row (col_percentInventorySold idx)))\<rparr>))"

definition fetchSheetBySku ::
  "(string \<Rightarrow> jsnum) \<Rightarrow> string \<Rightarrow> error + (string \<rightharpoonup> sheet_entry)" where
  \<comment> \<open>from the text of the sheet on; the transport fetch is outside the model\<close>
  "fetchSheetBySku toNumber csvText =
     (let rows = parseCsv csvText in
      if rows = [] then Inl SheetEmpty
      else let idx = sheet_idx (map trim (hd rows)) in
        if col_sku idx = None \<or> col_daysInStock idx = None then Inl MissingColumns
        else Inr (fold (sheet_row toNumber idx) (tl rows) Map.empty))"

section \<open>Paged fetch over GraphQL (src/api/inventory-report.js)\<close>

text \<open>
  The upstream is a function from the request to its response: \<open>shopifyGraphQL(query,
  { cursor })\<close> either throws (\<^const>\<open>Inl\<close>) or returns the page for that cursor.  The
  requests a loop issues are its effect; the model returns them, in order, with the
  collected records.  A loop that never stops returns \<^const>\<open>None\<close>.
\<close>

record gql_variant =
  gv_id :: string
  gv_sku :: "string option"
  gv_inventoryItem :: "string option"  \<comment> \<open>\<open>v.inventoryItem?.id\<close>\<close>

record gql_edge =
  ge_cursor :: string
  ge_variants :: "gql_variant list"  \<comment> \<open>the nodes of \<open>edge.node.variants.edges || []\<close>\<close>

record gql_page =
  gp_edges :: "gql_edge list"  \<comment> \<open>\<open>data.products.edges || []\<close>\<close>
  gp_hasNextPage :: bool

definition truthy_str :: "string option \<Rightarrow> bool" where
  "truthy_str s = (case s of None \<Rightarrow> False | Some t \<Rightarrow> t \<noteq> [])"

definition gql_kept :: "gql_page \<Rightarrow> gql_variant list" where
  \<comment> \<open>the two nested \<open>for\<close> loops: a variant is pushed unless \<open>!v.sku\<close> or
      \<open>!v.inventoryItem?.id\<close>\<close>
  "gql_kept data =
     concat (map (\<lambda>edge. filter (\<lambda>v. truthy_str (gv_sku v) \<and> truthy_str (gv_inventoryItem v))
                            (ge_variants edge))
                 (gp_edges data))"

partial_function (option) fetchAllVariants_loop ::
  "(string option \<Rightarrow> error + gql_page) \<Rightarrow> string option \<Rightarrow> string option list
     \<Rightarrow> gql_variant list \<Rightarrow> (error + string option list \<times> gql_variant list) option" where
  "fetchAllVariants_loop shopifyGraphQL cursor sent variants =
     (case shopifyGraphQL cursor of
        Inl e \<Rightarrow> Some (Inl e)
      | Inr data \<Rightarrow>
          if \<not> gp_hasNextPage data
            then Some (Inr (sent @ [cursor], variants @ gql_kept data))
          else if gp_edges data = []
            then Some (Inl TypeError)
          else fetchAllVariants_loop shopifyGraphQL (Some (ge_cursor (last (gp_edges data))))
                 (sent @ [cursor]) (variants @ gql_kept data))"

declare fetchAllVariants_loop.simps [code]

definition fetchAllVariants ::
  "(string option \<Rightarrow> error + gql_page)
     \<Rightarrow> (error + string option list \<times> gql_variant list) option" where
  "fetchAllVariants shopifyGraphQL = fetchAllVariants_loop shopifyGraphQL None [] []"

section \<open>Paged fetch over REST (src/unnamed/part_004)\<close>

record rest_variant =
  rv_id :: int
  rv_sku :: "string option"
  rv_inventory_item_id :: "int option"

record variant_ref =
  vr_sku :: string
  vr_variantId :: int
  vr_inventoryItemId :: int

record rest_page =
  rp_products :: "rest_variant list list"  \<comment> \<open>\<open>product.variants || []\<close> of each of \<open>json.products || []\<close>\<close>
  rp_link :: "string option"  \<comment> \<open>\<open>json.headers?.link\<close>\<close>

definition rest_kept :: "rest_page \<Rightarrow> variant_ref list" where
  \<comment> \<open>\<open>if (v.sku && v.inventory_item_id) variants.push({...})\<close>: an empty SKU and the id 0
      are falsy\<close>
  "rest_kept json =
     concat (map (\<lambda>variants.
        concat (map (\<lambda>v. case (rv_sku v, rv_inventory_item_id v) of
                            (Some s, Some i) \<Rightarrow>
                              if s \<noteq> [] \<and> i \<noteq> 0
                              then [\<lparr>vr_sku = s, vr_variantId = rv_id v, vr_inventoryItemId = i\<rparr>]
                              else []
                          | _ \<Rightarrow> [])
                    variants))
        (rp_products json))"

fun includes_str :: "string \<Rightarrow> string \<Rightarrow> bool" where
  \<comment> \<open>\<open>s.includes(p)\<close>\<close>
  "includes_str [] p = (p = [])"
| "includes_str (c # cs) p = (take (length p) (c # cs) = p \<or> includes_str cs p)"

definition rel_next :: string where
  "rel_next = ''rel='' @ [dquote] @ ''next'' @ [dquote]"

fun match_page_info :: "string \<Rightarrow> string option" where
  \<comment> \<open>group 1 of the first match of \<^verbatim>\<open>/page_info=([^&>]+)/\<close>: the leftmost \<open>page_info=\<close> that is
      followed by a character other than \<open>&\<close> and \<open>>\<close>, and the longest run of such characters\<close>
  "match_page_info [] = None"
| "match_page_info (c # cs) =
     (let captured = takeWhile (\<lambda>x. x \<noteq> CHR ''&'' \<and> x \<noteq> CHR ''>'') (drop 10 (c # cs)) in
      if take 10 (c # cs) = ''page_info='' \<and> captured \<noteq> [] then Some captured
      else match_page_info cs)"

definition next_cursor :: "string option \<Rightarrow> string option" where
  \<comment> \<open>from \<open>const link = json.headers?.link || ""\<close> to the second \<open>break\<close>\<close>
  "next_cursor l =
     (let link = (case l of None \<Rightarrow> [] | Some s \<Rightarrow> s) in
      if \<not> includes_str link rel_next then None else match_page_info link)"

partial_function (option) fetchVariants_loop ::
  "(string option \<Rightarrow> error + rest_page) \<Rightarrow> string option \<Rightarrow> string option list
     \<Rightarrow> variant_ref list \<Rightarrow> (error + string option list \<times> variant_ref list) option" where
  "fetchVariants_loop shopifyGET cursor sent variants =
     (case shopifyGET cursor of
        Inl e \<Rightarrow> Some (Inl e)
      | Inr json \<Rightarrow>
          (case next_cursor (rp_link json) of
             None \<Rightarrow> Some (Inr (sent @ [cursor], variants @ rest_kept json))
           | Some c \<Rightarrow>
               fetchVariants_loop shopifyGET (Some c) (sent @ [cursor]) (variants @ rest_kept json)))"

declare fetchVariants_loop.simps [code]

definition fetchVariants ::
  "(string option \<Rightarrow> error + rest_page)
     \<Rightarrow> (error + string option list \<times> variant_ref list) option" where
  "fetchVariants shopifyGET = fetchVariants_loop shopifyGET None [] []"

section \<open>Paged collections\<close>

text \<open>
  A paged collection behind an upstream: the pages it serves from a cursor on, each page
  but the last carrying the continuation token that leads to the next one.
\<close>

fun gql_collection :: "(string option \<Rightarrow> error + gql_page) \<Rightarrow> string option \<Rightarrow> gql_page list \<Rightarrow> bool" where
  "gql_collection upstream cursor [] = False"
| "gql_collection upstream cursor [p] = (upstream cursor = Inr p \<and> \<not> gp_hasNextPage p)"
| "gql_collection upstream cursor (p # q # ps) =
     (upstream cursor = Inr p \<and> gp_hasNextPage p \<and> gp_edges p \<noteq> [] \<and>
      gql_collection upstream (Some (ge_cursor (last (gp_edges p)))) (q # ps))"

text \<open>
  The link metadata of a REST page lists its links separated by commas (outside the
  \<open><...>\<close> of a target); the continuation pointer it carries is the \<open>page_info\<close> value of
  the link marked \<open>rel="next"\<close>.
\<close>

fun link_entries_loop :: "string \<Rightarrow> bool \<Rightarrow> string \<Rightarrow> string list \<Rightarrow> string list" where
  "link_entries_loop [] inTarget entry entries = entries @ [entry]"
| "link_entries_loop (c # cs) inTarget entry entries =
     (if c = CHR '','' \<and> \<not> inTarget then link_entries_loop cs inTarget [] (entries @ [entry])
      else link_entries_loop cs
             (if c = CHR ''<'' then True else if c = CHR ''>'' then False else inTarget)
             (entry @ [c]) entries)"

definition link_entries :: "string \<Rightarrow> string list" where
  "link_entries text = link_entries_loop text False [] []"

definition rel_next_pointer :: "string option \<Rightarrow> string option" where
  "rel_next_pointer l =
     (case l of
        None \<Rightarrow> None
      | Some text \<Rightarrow>
          (case find (\<lambda>entry. includes_str entry rel_next) (link_entries text) of
             None \<Rightarrow> None
           | Some entry \<Rightarrow> match_page_info entry))"

definition single_link :: "string option \<Rightarrow> bool" where
  \<comment> \<open>the metadata holds no link or one link\<close>
  "single_link l = (case l of None \<Rightarrow> True | Some text \<Rightarrow> link_entries text = [text])"

fun rest_collection :: "(string option \<Rightarrow> error + rest_page) \<Rightarrow> string option \<Rightarrow> rest_page list \<Rightarrow> bool" where
  "rest_collection upstream cursor [] = False"
| "rest_collection upstream cursor [p] =
     (upstream cursor = Inr p \<and> rel_next_pointer (rp_link p) = None)"
| "rest_collection upstream cursor (p # q # ps) =
     (upstream cursor = Inr p \<and> rel_next_pointer (rp_link p) \<noteq> None \<and>
      rest_collection upstream (rel_next_pointer (rp_link p)) (q # ps))"

definition gql_tokens :: "gql_page list \<Rightarrow> string option list" where
  \<comment> \<open>the continuation tokens of all pages but the last\<close>
  "gql_tokens pages = map (\<lambda>p. Some (ge_cursor (last (gp_edges p)))) (butlast pages)"

definition rest_tokens :: "rest_page list \<Rightarrow> string option list" where
  "rest_tokens pages = map (\<lambda>p. rel_next_pointer (rp_link p)) (butlast pages)"

definition gql_records :: "gql_page \<Rightarrow> gql_variant list" where
  \<comment> \<open>all the variant records of a page\<close>
  "gql_records data = concat (map ge_variants (gp_edges data))"

text \<open>A catalog of one page whose only variant has no SKU.\<close>

definition page_without_sku :: gql_page where
  "page_without_sku =
     \<lparr>gp_edges = [\<lparr>ge_cursor = ''c1'',
                   ge_variants = [\<lparr>gv_id = ''gid://shopify/ProductVariant/1'', gv_sku = None,
                                   gv_inventoryItem = Some ''gid://shopify/InventoryItem/1''\<rparr>]\<rparr>],
      gp_hasNextPage = False\<rparr>"

definition upstream_without_sku :: "string option \<Rightarrow> error + gql_page" where
  "upstream_without_sku cursor = Inr page_without_sku"

section \<open>Example inputs\<close>

text \<open>A catalog of two pages behind each upstream; one variant of the first page has no SKU.\<close>

definition example_gql_page1 :: gql_page where
  "example_gql_page1 =
     \<lparr>gp_edges = [\<lparr>ge_cursor = ''c1'',
                   ge_variants = [\<lparr>gv_id = ''v1'', gv_sku = Some ''HAT-053'',
                                   gv_inventoryItem = Some ''i1''\<rparr>,
                                  \<lparr>gv_id = ''v2'', gv_sku = Some [],
                                   gv_inventoryItem = Some ''i2''\<rparr>]\<rparr>],
      gp_hasNextPage = True\<rparr>"

definition example_gql_page2 :: gql_page where
  "example_gql_page2 =
     \<lparr>gp_edges = [\<lparr>ge_cursor = ''c2'',
                   ge_variants = [\<lparr>gv_id = ''v3'', gv_sku = Some ''50002'',
                                   gv_inventoryItem = Some ''i3''\<rparr>]\<rparr>],
      gp_hasNextPage = False\<rparr>"

definition example_gql_upstream :: "string option \<Rightarrow> error + gql_page" where
  "example_gql_upstream cursor =
     (if cursor = None then Inr example_gql_page1
      else if cursor = Some ''c1'' then Inr example_gql_page2
      else Inl UpstreamError)"

definition link_to :: "string \<Rightarrow> string \<Rightarrow> string" where
  \<comment> \<open>one link of the metadata, to the page with the given \<open>page_info\<close>\<close>
  "link_to page_info rel =
     ''<https://shop.example/admin/api/2024-10/products.json?page_info='' @ page_info
       @ ''&limit=250>; rel='' @ [dquote] @ rel @ [dquote]"

definition example_rest_page1 :: rest_page where
  "example_rest_page1 =
     \<lparr>rp_products = [[\<lparr>rv_id = 1, rv_sku = Some ''HAT-053'', rv_inventory_item_id = Some 11\<rparr>,
                       \<lparr>rv_id = 2, rv_sku = None, rv_inventory_item_id = Some 12\<rparr>]],
      rp_link = Some (link_to ''abc'' ''next'')\<rparr>"

definition example_rest_page2 :: rest_page where
  "example_rest_page2 =
     \<lparr>rp_products = [[\<lparr>rv_id = 3, rv_sku = Some ''50002'', rv_inventory_item_id = Some 13\<rparr>]],
      rp_link = Some (link_to ''start'' ''previous'')\<rparr>"

definition example_rest_upstream :: "string option \<Rightarrow> error + rest_page" where
  "example_rest_upstream cursor =
     (if cursor = None then Inr example_rest_page1
      else if cursor = Some ''abc'' then Inr example_rest_page2
      else Inl UpstreamError)"

text \<open>
  A catalog of three pages over REST; the middle page links back to the first and on to
  the third.
\<close>

definition three_page1 :: rest_page where
  "three_page1 = \<lparr>rp_products = [], rp_link = Some (link_to ''p2'' ''next'')\<rparr>"

definition three_page2 :: rest_page where
  "three_page2 =
     \<lparr>rp_products = [],
      rp_link = Some (link_to ''p1'' ''previous'' @ '', '' @ link_to ''p3'' ''next'')\<rparr>"

definition three_page3 :: rest_page where
  "three_page3 = \<lparr>rp_products = [], rp_link = Some (link_to ''p2'' ''previous'')\<rparr>"

definition three_page_upstream :: "string option \<Rightarrow> error + rest_page" where
  "three_page_upstream cursor =
     (if cursor = None \<or> cursor = Some ''p1'' then Inr three_page1
      else if cursor = Some ''p2'' then Inr three_page2
      else if cursor = Some ''p3'' then Inr three_page3
      else Inl UpstreamError)"

text \<open>A sheet entry with given day counts, and a sales entry.\<close>

definition example_sheet :: "rat \<Rightarrow> rat \<Rightarrow> sheet_entry" where
  "example_sheet a b =
     \<lparr>sku_norm = ''HAT-053'', sku_raw = ''HAT-053-##'', product_title = ''Hat'',
      variant_title = ''Default'', abc_grade = ''A'',
      days_in_stock_24m = Val a, days_out_of_stock_24m = Val b,
      inventory_units_sold_csv = None, sell_through_rate_csv = None,
      percent_inventory_sold_csv = None\<rparr>"

definition example_sales :: sales_entry where
  "example_sales = \<lparr>sales_sku = ''HAT-053'', any_raw_sku = ''HAT-053'', sales_total_sold_24m = Val 6\<rparr>"

text \<open>
  A sheet of one data row whose days-in-stock cell is not a number and whose sell-through
  rate is zero, and a reading of \<open>Number\<close> on the two strings that reach it.
\<close>

definition example_csv :: string where
  "example_csv =
     ''Product variant SKU,Days in stock (at location),Sell-through rate'' @ [CHR 0x0A] @
     ''HAT-053-##,n/a,0%'' @ [CHR 0x0A]"

definition example_toNumber :: "string \<Rightarrow> jsnum" where
  "example_toNumber s = (if s = ''0'' then Val 0 else NaN)"


section \<open>Properties of the SKU normaliser\<close>

lemma dropWhile_self: "xs \<noteq> [] \<Longrightarrow> \<not> P (hd xs) \<Longrightarrow> dropWhile P xs = xs"
  by (cases xs) auto

lemma trim_fixed: "t \<noteq> [] \<Longrightarrow> \<not> is_space (hd t) \<Longrightarrow> \<not> is_space (last t) \<Longrightarrow> trim t = t"
  by (simp add: trim_def dropWhile_self hd_rev)

lemma trim_ends:
  assumes "trim s \<noteq> []"
  shows "\<not> is_space (hd (trim s))" and "\<not> is_space (last (trim s))"
proof -
  define u where "u = dropWhile is_space s"
  define v where "v = dropWhile is_space (rev u)"
  have t: "trim s = rev v" by (simp add: trim_def u_def v_def)
  with assms have v: "v \<noteq> []" by simp
  have "\<not> is_space (hd v)" using v unfolding v_def by (rule hd_dropWhile)
  then show "\<not> is_space (last (trim s))" using v by (simp add: t last_rev)
  have "rev u = takeWhile is_space (rev u) @ v" by (simp add: v_def)
  then have "u = rev v @ rev (takeWhile is_space (rev u))"
    by (metis rev_append rev_rev_ident)
  then have hd: "hd u = hd (rev v)" using v by (metis hd_append2 rev_is_Nil_conv)
  have "u \<noteq> []" using v unfolding v_def by auto
  then have "\<not> is_space (hd u)" unfolding u_def by (rule hd_dropWhile)
  then show "\<not> is_space (hd (trim s))" by (simp add: t hd)
qed

lemma strip_suffix_Nil_iff: "strip_suffix cs = [] \<longleftrightarrow> cs = [] \<or> suffix_matches cs"
  by (cases cs) auto

lemma suffix_matches_space: "is_space c \<Longrightarrow> suffix_matches (c # cs) = suffix_matches cs"
  by (simp add: suffix_matches_def)

text \<open>
  The cut never leaves white space at the end: a match that starts right after a blank
  also starts at the blank, and the leftmost start is taken.
\<close>

lemma strip_suffix_last:
  "\<not> is_space (last t) \<Longrightarrow> strip_suffix t \<noteq> [] \<Longrightarrow> \<not> is_space (last (strip_suffix t))"
proof (induction t)
  case Nil
  then show ?case by simp
next
  case (Cons c cs)
  from Cons.prems(2) have nm: "\<not> suffix_matches (c # cs)" by (auto split: if_splits)
  show ?case
  proof (cases "strip_suffix cs = []")
    case True
    then consider "cs = []" | "suffix_matches cs" by (auto simp: strip_suffix_Nil_iff)
    then have "\<not> is_space c"
    proof cases
      case 1
      with Cons.prems(1) show ?thesis by simp
    next
      case 2
      with nm show ?thesis by (auto simp: suffix_matches_space)
    qed
    with True nm show ?thesis by simp
  next
    case False
    then have "cs \<noteq> []" by auto
    with Cons.prems(1) have "\<not> is_space (last cs)" by simp
    with Cons.IH False have "\<not> is_space (last (strip_suffix cs))" by simp
    with False nm show ?thesis by simp
  qed
qed

lemma strip_suffix_hd: "strip_suffix t \<noteq> [] \<Longrightarrow> hd (strip_suffix t) = hd t"
  by (cases t) (auto split: if_splits)

lemma strip_suffix_id: "\<not> has_suffix s \<Longrightarrow> strip_suffix s = s"
  by (induction s) auto

lemma strip_suffix_shorter: "has_suffix s \<Longrightarrow> length (strip_suffix s) < length s"
proof (induction s)
  case Nil
  then show ?case by simp
next
  case (Cons c cs)
  then show ?case by (cases "suffix_matches (c # cs)") auto
qed

lemma normaliseSku_trimmed:
  assumes "normaliseSku x = Some y" and "y \<noteq> []"
  shows "trim y = y"
proof -
  from assms(1) obtain s where y: "y = strip_suffix (trim s)"
    by (auto simp: normaliseSku_def split: option.splits if_splits)
  with assms(2) have t: "trim s \<noteq> []" by auto
  have "\<not> is_space (hd y)" using assms(2) trim_ends(1)[OF t] by (simp add: y strip_suffix_hd)
  moreover have "\<not> is_space (last y)"
    using assms(2) trim_ends(2)[OF t] unfolding y by (rule strip_suffix_last[rotated -1])
  ultimately show ?thesis using assms(2) by (simp add: trim_fixed)
qed

text \<open>
  C5.  The normaliser on the four examples.  Three come out as documented:
  \<open>"HAT-053-##"\<close> gives \<open>"HAT-053"\<close>, \<open>"50002"\<close> is unchanged and \<open>""\<close> gives \<open>null\<close>.
  The fourth does not: the pattern requires the hyphen, so \<open>"CUS-0028   ##"\<close> comes back
  unchanged instead of \<open>"CUS-0028"\<close>, against the comment above \<open>normaliseSku\<close>.
\<close>

theorem normaliseSku_examples:
  "normaliseSku (Some ''HAT-053-##'') = Some ''HAT-053'' \<and>
   normaliseSku (Some ''50002'') = Some ''50002'' \<and>
   normaliseSku (Some []) = None \<and>
   normaliseSku (Some ''CUS-0028   ##'') = Some ''CUS-0028   ##'' \<and>
   normaliseSku (Some ''CUS-0028   ##'') \<noteq> Some ''CUS-0028''"
  by (simp add: normaliseSku_def trim_def is_space_def suffix_matches_def)

text \<open>
  C6, as stated: normalising twice is the same as normalising once, for every string.
  It fails where the first pass uncovers another suffix: \<open>"A-#-#"\<close> gives \<open>"A-#"\<close>, which
  gives \<open>"A"\<close>.
\<close>

theorem normaliseSku_not_idempotent:
  "normaliseSku (normaliseSku (Some ''A-#-#'')) \<noteq> normaliseSku (Some ''A-#-#'')"
  by (simp add: normaliseSku_def trim_def is_space_def suffix_matches_def)

text \<open>
  C6, amended: normalising twice equals normalising once exactly when the first result is
  \<open>null\<close>, or is a non-empty string in which the suffix pattern no longer matches.
\<close>

theorem normaliseSku_idempotent_iff:
  "normaliseSku (normaliseSku x) = normaliseSku x \<longleftrightarrow>
     (\<forall>y. normaliseSku x = Some y \<longrightarrow> y \<noteq> [] \<and> \<not> has_suffix y)"
proof (cases "normaliseSku x")
  case None
  then show ?thesis by (simp add: normaliseSku_def)
next
  case (Some y)
  show ?thesis
  proof (cases "y = []")
    case True
    with Some show ?thesis by (simp add: normaliseSku_def)
  next
    case False
    with Some have tr: "trim y = y" by (rule normaliseSku_trimmed)
    have "strip_suffix y = y \<longleftrightarrow> \<not> has_suffix y"
      using strip_suffix_shorter[of y] strip_suffix_id[of y] by auto
    with Some False tr show ?thesis by (simp add: normaliseSku_def)
  qed
qed

theorem normaliseSku_idempotent_iff_witness:
  "normaliseSku (Some ''HAT-053-##'') = Some ''HAT-053''
   \<and> ''HAT-053'' \<noteq> [] \<and> \<not> has_suffix ''HAT-053''
   \<and> normaliseSku (normaliseSku (Some ''HAT-053-##'')) = normaliseSku (Some ''HAT-053-##'')"
proof -
  have n: "normaliseSku (Some ''HAT-053-##'') = Some ''HAT-053''"
    by (simp add: normaliseSku_def trim_def is_space_def suffix_matches_def)
  have h: "\<not> has_suffix ''HAT-053''"
    by (simp add: is_space_def suffix_matches_def)
  from n h normaliseSku_idempotent_iff[of "Some ''HAT-053-##''"] show ?thesis by simp
qed

section \<open>Properties of the CSV parser\<close>

text \<open>Inside quotes every character of the field is taken up, a doubled quote as one.\<close>

lemma parseCsv_loop_in_quotes:
  "parseCsv_loop (concat (map (\<lambda>c. if c = dquote then [dquote, dquote] else [c]) f) @ [dquote])
     rows row field True
   = parseCsv_loop [] rows row (field @ f) False"
proof (induction f arbitrary: field)
  case Nil
  then show ?case by simp
next
  case (Cons c f)
  let ?rest = "concat (map (\<lambda>c. if c = dquote then [dquote, dquote] else [c]) f) @ [dquote]"
  obtain n cs where r: "?rest = n # cs" by (cases ?rest) auto
  show ?case
  proof (cases "c = dquote")
    case True
    then show ?thesis using Cons.IH[of "field @ [dquote]"] by simp
  next
    case False
    have "parseCsv_loop (c # n # cs) rows row field True
          = parseCsv_loop (n # cs) rows row (field @ [c]) True"
      using False by simp
    with Cons.IH[of "field @ [c]"] False r show ?thesis by simp
  qed
qed

text \<open>An empty quoted field alone on its line leaves no row at all.\<close>

lemma parseCsv_empty_quoted: "parseCsv (csv_quote []) = []"
  by (simp add: parseCsv_def csv_quote_def)

text \<open>
  C9.  The parser decodes a quoted field with doubled-quote escaping and embedded commas:
  every non-empty field, whatever characters it holds, written between quotes with its
  quotes doubled, parses to one row with that one field.  At the field \<open>a,b"c\<close>, written
  \<open>"a,b""c"\<close>, this is the example of the claim.
\<close>

theorem parseCsv_quoted_roundtrip:
  "f \<noteq> [] \<Longrightarrow> parseCsv (csv_quote f) = [[f]]"
proof -
  assume f: "f \<noteq> []"
  let ?rest = "concat (map (\<lambda>c. if c = dquote then [dquote, dquote] else [c]) f) @ [dquote]"
  obtain n cs where r: "?rest = n # cs" by (cases ?rest) auto
  have "parseCsv_loop (dquote # n # cs) [] [] [] False = parseCsv_loop (n # cs) [] [] [] True"
    by simp
  also have "\<dots> = parseCsv_loop [] [] [] ([] @ f) False"
    unfolding r[symmetric] by (rule parseCsv_loop_in_quotes)
  also have "\<dots> = [[f]]" using f by simp
  finally show ?thesis by (simp add: parseCsv_def csv_quote_def r)
qed

theorem parseCsv_quoted_roundtrip_witness:
  "csv_quote (''a,b'' @ [dquote] @ ''c'') = [dquote] @ ''a,b'' @ [dquote, dquote] @ ''c'' @ [dquote] \<and>
   parseCsv ([dquote] @ ''a,b'' @ [dquote, dquote] @ ''c'' @ [dquote]) = [[''a,b'' @ [dquote] @ ''c'']]"
proof -
  have q: "csv_quote (''a,b'' @ [dquote] @ ''c'') = [dquote] @ ''a,b'' @ [dquote, dquote] @ ''c'' @ [dquote]"
    by (simp add: csv_quote_def dquote_def)
  have n: "''a,b'' @ [dquote] @ ''c'' \<noteq> []" by simp
  from parseCsv_quoted_roundtrip[OF n] q show ?thesis by simp
qed

section \<open>Properties of the per-day metrics pass\<close>

lemma or_zero_nonneg: "\<forall>k v. s k = Some v \<longrightarrow> 0 \<le> v \<Longrightarrow> 0 \<le> or_zero (s k)"
  by (auto simp: or_zero_def split: option.splits)

lemma calculateMetrics_loop_inv:
  assumes "\<forall>k v. s k = Some v \<longrightarrow> 0 \<le> v"
  shows "sku_metrics_invariant n m \<Longrightarrow>
         sku_metrics_invariant (n + length ds) (calculateMetrics_loop ds ivt s m)"
proof (induction ds arbitrary: n m)
  case Nil
  then show ?case by simp
next
  case (Cons d ds)
  have s: "0 \<le> or_zero (s d)" using assms by (rule or_zero_nonneg)
  let ?m1 = "m\<lparr>total_sold := total_sold m + or_zero (s d)\<rparr>"
  let ?m2 = "if (case map_of ivt d of None \<Rightarrow> False | Some q \<Rightarrow> q > 0)
            then ?m1\<lparr>days_in_stock := days_in_stock ?m1 + 1,
                    sold_while_in_stock := sold_while_in_stock ?m1 + or_zero (s d)\<rparr>
            else ?m1\<lparr>stockout_days := stockout_days ?m1 + 1\<rparr>"
  from Cons.prems s have "sku_metrics_invariant (Suc n) ?m2"
    by (simp add: sku_metrics_invariant_def)
  from Cons.IH[OF this] show ?case by (simp add: Let_def)
qed

lemma computeMetrics_loop_inv:
  assumes "\<forall>k v. s k = Some v \<longrightarrow> 0 \<le> v"
  shows "sku_metrics_invariant n m \<Longrightarrow>
         sku_metrics_invariant (n + length ds) (computeMetrics_loop ds ivt s sku m)"
proof (induction ds arbitrary: n m)
  case Nil
  then show ?case by simp
next
  case (Cons d ds)
  have s: "0 \<le> or_zero (s (sales_key d sku))" using assms by (rule or_zero_nonneg)
  let ?sold = "or_zero (s (sales_key d sku))"
  let ?m1 = "m\<lparr>total_sold := total_sold m + ?sold\<rparr>"
  let ?m2 = "if nullish_or_zero (ivt d) > 0
            then ?m1\<lparr>days_in_stock := days_in_stock ?m1 + 1,
                    sold_while_in_stock := sold_while_in_stock ?m1 + ?sold\<rparr>
            else ?m1\<lparr>stockout_days := stockout_days ?m1 + 1\<rparr>"
  from Cons.prems s have "sku_metrics_invariant (Suc n) ?m2"
    by (simp add: sku_metrics_invariant_def)
  from Cons.IH[OF this] show ?case by (simp add: Let_def)
qed

lemma metrics0_inv: "sku_metrics_invariant 0 metrics0"
  by (simp add: sku_metrics_invariant_def metrics0_def)

lemma fold_init_keys:
  "distinct (map fst acc @ ds) \<Longrightarrow>
   map fst (fold (\<lambda>d ivt. AList.update d (0::int) ivt) ds acc) = map fst acc @ ds"
proof (induction ds arbitrary: acc)
  case Nil
  then show ?case by simp
next
  case (Cons d ds)
  from Cons.prems have k: "map fst (AList.update d 0 acc) = map fst acc @ [d]"
    by (simp add: update_keys)
  with Cons.prems have "distinct (map fst (AList.update d 0 acc) @ ds)" by auto
  from Cons.IH[OF this] k show ?case by simp
qed

lemma backward_loop_keys:
  "set ds \<subseteq> fst ` set ivt \<Longrightarrow> map fst (backward_loop ds s r ivt) = map fst ivt"
proof (induction ds arbitrary: r ivt)
  case Nil
  then show ?case by simp
next
  case (Cons d ds)
  from Cons.prems have k: "map fst (AList.update d r ivt) = map fst ivt"
    by (simp add: update_keys)
  then have "fst ` set (AList.update d r ivt) = fst ` set ivt"
    by (metis set_map)
  with Cons.prems have "set ds \<subseteq> fst ` set (AList.update d r ivt)" by simp
  from Cons.IH[OF this] k show ?case by (simp add: Let_def)
qed

text \<open>The reconstructed series has exactly the days of the window as its keys, in order.\<close>

lemma reconstructDailyInventory_keys:
  assumes "distinct days"
  shows "map fst (reconstructDailyInventory days finalQty salesForSku) = days"
proof -
  let ?init = "fold (\<lambda>d ivt. AList.update d (0::int) ivt) days []"
  have k: "map fst ?init = days" using assms fold_init_keys[of "[]" days] by simp
  then have "set (rev days) \<subseteq> fst ` set ?init" by (metis set_map set_rev subset_refl)
  from backward_loop_keys[OF this] k show ?thesis
    by (simp add: reconstructDailyInventory_def)
qed

text \<open>
  C1.  When no sold quantity is negative, the per-day pass returns metrics with
  days in stock + stockout days = number of days passed over, sold while in stock at most
  total sold, and no negative field: \<open>computeMetrics\<close> (inventory-report.js) for every
  list of dates, \<open>calculateMetrics\<close> (part_004) for every inventory object, whose keys are
  the days it passes over, and in particular for the series reconstructed over the day
  sequence of a window (no day twice), whose length is then the number counted.
\<close>

theorem metrics_invariant:
  assumes "\<forall>k v. sales k = Some v \<longrightarrow> 0 \<le> v"
    and "\<forall>d v. salesForSku d = Some v \<longrightarrow> 0 \<le> v"
  shows "sku_metrics_invariant (length dates) (computeMetrics_sku dates invRaw sales sku) \<and>
         sku_metrics_invariant (length inventory) (calculateMetrics inventory salesForSku) \<and>
         (distinct days \<longrightarrow>
            sku_metrics_invariant (length days)
              (calculateMetrics (reconstructDailyInventory days finalQty salesForSku) salesForSku))"
proof (intro conjI impI)
  show "sku_metrics_invariant (length dates) (computeMetrics_sku dates invRaw sales sku)"
    using computeMetrics_loop_inv[OF assms(1) metrics0_inv, of dates]
    by (simp add: computeMetrics_sku_def)
next
  show c: "sku_metrics_invariant (length ivt) (calculateMetrics ivt salesForSku)" for ivt
    using calculateMetrics_loop_inv[OF assms(2) metrics0_inv, of "map fst ivt"]
    by (simp add: calculateMetrics_def)
  assume "distinct days"
  then have "map fst (reconstructDailyInventory days finalQty salesForSku) = days"
    by (rule reconstructDailyInventory_keys)
  then have "length (reconstructDailyInventory days finalQty salesForSku) = length days"
    by (metis length_map)
  with c[of "reconstructDailyInventory days finalQty salesForSku"]
  show "sku_metrics_invariant (length days)
          (calculateMetrics (reconstructDailyInventory days finalQty salesForSku) salesForSku)"
    by simp
qed

theorem metrics_invariant_witness:
  "sku_metrics_invariant 3
     (computeMetrics_sku [''2024-01-01'', ''2024-01-02'', ''2024-01-03'']
        [(''2024-01-01'', Some 4), (''2024-01-02'', None)]
        [sales_key ''2024-01-01'' ''X-1'' \<mapsto> 2, sales_key ''2024-01-02'' ''X-1'' \<mapsto> 1] ''X-1'') \<and>
   sku_metrics_invariant 2
     (calculateMetrics [(''2024-01-01'', 0), (''2024-01-02'', 5)]
        [''2024-01-01'' \<mapsto> 2, ''2024-01-02'' \<mapsto> 1]) \<and>
   distinct [''2024-01-01'', ''2024-01-02'', ''2024-01-03''] \<and>
   sku_metrics_invariant 3
     (calculateMetrics
        (reconstructDailyInventory [''2024-01-01'', ''2024-01-02'', ''2024-01-03''] 10
           [''2024-01-01'' \<mapsto> 2, ''2024-01-02'' \<mapsto> 1])
        [''2024-01-01'' \<mapsto> 2, ''2024-01-02'' \<mapsto> 1])"
proof -
  have a: "\<forall>k v. [sales_key ''2024-01-01'' ''X-1'' \<mapsto> 2, sales_key ''2024-01-02'' ''X-1'' \<mapsto> (1::int)] k
             = Some v \<longrightarrow> 0 \<le> v"
    by (auto split: if_splits)
  have b: "\<forall>d v. [''2024-01-01'' \<mapsto> 2, ''2024-01-02'' \<mapsto> (1::int)] d = Some v \<longrightarrow> 0 \<le> v"
    by (auto split: if_splits)
  have c: "distinct [''2024-01-01'', ''2024-01-02'', ''2024-01-03'']" by simp
  have l: "length [''2024-01-01'', ''2024-01-02'', ''2024-01-03''] = 3"
    "length [(''2024-01-01'', 0::int), (''2024-01-02'', 5)] = 2" by simp_all
  show ?thesis
    using c metrics_invariant[OF a b,
        where dates = "[''2024-01-01'', ''2024-01-02'', ''2024-01-03'']"
        and invRaw = "[(''2024-01-01'', Some 4), (''2024-01-02'', None)]"
        and sku = "''X-1''"
        and inventory = "[(''2024-01-01'', 0), (''2024-01-02'', 5)]"
        and days = "[''2024-01-01'', ''2024-01-02'', ''2024-01-03'']"
        and finalQty = 10]
    unfolding l by blast
qed

section \<open>Properties of the backward reconstruction\<close>

lemma end_of_day_series_snoc:
  "end_of_day_series (ds @ [d]) r s = end_of_day_series ds (r + or_zero (s d)) s @ [(d, r)]"
  by (induction ds) (simp_all add: algebra_simps)

lemma update_middle:
  "d \<notin> fst ` set P \<Longrightarrow> AList.update d v (P @ (d, w) # Y) = P @ (d, v) # Y"
  by (induction P) auto

lemma fold_init_series:
  "fold (\<lambda>d ivt. AList.update d (0::int) ivt) ds acc = acc @ map (\<lambda>d. (d, 0)) ds"
  if "distinct (map fst acc @ ds)"
  using that
proof (induction ds arbitrary: acc)
  case Nil
  then show ?case by simp
next
  case (Cons d ds)
  from Cons.prems have "d \<notin> fst ` set acc" by auto
  then have u: "AList.update d 0 acc = acc @ [(d, 0)]"
    using update_middle[of d acc 0 0 "[]"] by (induction acc) auto
  from Cons.prems have "distinct (map fst (acc @ [(d, 0)]) @ ds)" by auto
  from Cons.IH[OF this] u show ?case by simp
qed

lemma backward_loop_series:
  "distinct (map fst X @ ds) \<Longrightarrow>
   backward_loop (rev ds) s r (X @ map (\<lambda>d. (d, 0)) ds @ Y) = X @ end_of_day_series ds r s @ Y"
proof (induction ds arbitrary: r Y rule: rev_induct)
  case Nil
  then show ?case by simp
next
  case (snoc d ds)
  let ?P = "X @ map (\<lambda>d. (d, 0::int)) ds"
  from snoc.prems have nd: "d \<notin> fst ` set ?P" by (auto simp: image_iff)
  have u: "AList.update d r (?P @ (d, 0) # Y) = ?P @ (d, r) # Y"
    using nd by (rule update_middle)
  from snoc.prems have dist: "distinct (map fst X @ ds)" by simp
  have "backward_loop (rev (ds @ [d])) s r (X @ map (\<lambda>d. (d, 0)) (ds @ [d]) @ Y)
        = backward_loop (rev ds) s (r + or_zero (s d)) (X @ map (\<lambda>d. (d, 0)) ds @ ((d, r) # Y))"
    using u by (simp add: Let_def)
  also have "\<dots> = X @ end_of_day_series ds (r + or_zero (s d)) s @ ((d, r) # Y)"
    by (rule snoc.IH[OF dist])
  finally show ?case by (simp add: end_of_day_series_snoc)
qed

text \<open>
  Over the day sequence of a window the backward reconstruction is the end-of-day series;
  with no sales every day holds the final quantity.
\<close>

lemma reconstructDailyInventory_series:
  assumes "distinct days"
  shows "reconstructDailyInventory days finalQty salesForSku
           = end_of_day_series days finalQty salesForSku"
proof -
  have i: "fold (\<lambda>d ivt. AList.update d (0::int) ivt) days [] = map (\<lambda>d. (d, 0)) days"
    using assms fold_init_series[of "[]" days] by simp
  show ?thesis
    using backward_loop_series[of "[]" days salesForSku finalQty "[]"] assms
    by (simp add: reconstructDailyInventory_def i)
qed

lemma reconstructDailyInventory_no_sales:
  assumes "distinct days" and "\<forall>d \<in> set days. or_zero (salesForSku d) = 0"
  shows "reconstructDailyInventory days finalQty salesForSku = map (\<lambda>d. (d, finalQty)) days"
proof -
  have "end_of_day_series ds finalQty salesForSku = map (\<lambda>d. (d, finalQty)) ds"
    if "\<forall>d \<in> set ds. or_zero (salesForSku d) = 0" for ds
    using that
  proof (induction ds)
    case Nil
    then show ?case by simp
  next
    case (Cons d ds)
    then have "sum_list (map (\<lambda>x. or_zero (salesForSku x)) ds) = 0"
      by (simp add: sum_list_0 cong: map_cong)
    with Cons show ?case by simp
  qed
  with assms show ?thesis by (simp add: reconstructDailyInventory_series)
qed

text \<open>
  C2, as stated: a window of three days, quantity 10 at the last day and sales of 2, 1
  and 0 units give the series 13, 11, 10.  The code does not return that series.
\<close>

theorem reconstructDailyInventory_example_refuted:
  "reconstructDailyInventory [''2024-01-01'', ''2024-01-02'', ''2024-01-03''] 10
     [''2024-01-01'' \<mapsto> 2, ''2024-01-02'' \<mapsto> 1, ''2024-01-03'' \<mapsto> 0]
   \<noteq> [(''2024-01-01'', 13), (''2024-01-02'', 11), (''2024-01-03'', 10)]"
  by (simp add: reconstructDailyInventory_def or_zero_def)

text \<open>
  C2, amended: the same input gives the series 11, 10, 10.  A day receives the running
  total before that day's own sales are added back, so each value is the quantity at the
  end of its day.
\<close>

theorem reconstructDailyInventory_example:
  "reconstructDailyInventory [''2024-01-01'', ''2024-01-02'', ''2024-01-03''] 10
     [''2024-01-01'' \<mapsto> 2, ''2024-01-02'' \<mapsto> 1, ''2024-01-03'' \<mapsto> 0]
   = [(''2024-01-01'', 11), (''2024-01-02'', 10), (''2024-01-03'', 10)]"
  by (simp add: reconstructDailyInventory_def or_zero_def)

section \<open>Properties of the forward accumulation\<close>

lemma add_adjustments_p3_keys: "map fst (add_adjustments_p3 as m) = map fst m"
proof (induction as arbitrary: m)
  case Nil
  then show ?case by simp
next
  case (Cons a as)
  obtain date delta where a: "a = (date, delta)" by (cases a)
  show ?case
  proof (cases "map_of m date")
    case None
    with Cons.IH a show ?thesis by simp
  next
    case (Some v)
    then have "date \<in> fst ` set m" by (metis map_of_eq_None_iff option.distinct(1))
    then have "map fst (AList.update date (v + delta) m) = map fst m"
      by (simp add: update_keys)
    with Cons.IH[of "AList.update date (v + delta) m"] a Some show ?thesis by simp
  qed
qed

lemma add_adjustments_p3_value:
  "map_of (add_adjustments_p3 as m) d =
     (case map_of m d of None \<Rightarrow> None | Some v \<Rightarrow> Some (v + deltas_on d as))"
proof (induction as arbitrary: m)
  case Nil
  then show ?case by (simp add: deltas_on_def split: option.splits)
next
  case (Cons a as)
  obtain date delta where a: "a = (date, delta)" by (cases a)
  show ?case
  proof (cases "map_of m date")
    case None
    then have "d = date \<Longrightarrow> map_of m d = None" by simp
    with Cons.IH[of m] a None show ?thesis
      by (auto simp: deltas_on_def split: option.splits)
  next
    case (Some v)
    with Cons.IH[of "AList.update date (v + delta) m"] a show ?thesis
      by (auto simp: deltas_on_def update_conv' split: option.splits)
  qed
qed

lemma fold_init_value:
  "map_of (fold (\<lambda>d m. AList.update d (0::int) m) ds acc) d =
     (if d \<in> set ds then Some 0 else map_of acc d)"
  by (induction ds arbitrary: acc) (auto simp: update_conv')

lemma add_adjustments_p2_zero:
  "\<forall>(k, v) \<in> set daily. v = 0 \<Longrightarrow> add_adjustments_p2 as daily = daily"
proof (induction as arbitrary: daily)
  case Nil
  then show ?case by simp
next
  case (Cons a as)
  obtain date delta where a: "a = (date, delta)" by (cases a)
  have "map_of daily date = Some v \<Longrightarrow> v = 0" for v
    using Cons.prems by (auto dest: map_of_SomeD)
  with Cons a show ?case by (auto split: option.splits)
qed

lemma fold_init_zero:
  "\<forall>(k, v) \<in> set acc. v = 0 \<Longrightarrow>
   \<forall>(k, v) \<in> set (fold (\<lambda>d m. AList.update d (0::int) m) ds acc). v = 0"
proof (induction ds arbitrary: acc)
  case Nil
  then show ?case by simp
next
  case (Cons d ds)
  have "set (AList.update d 0 acc) \<subseteq> insert (d, 0) (set acc)"
    by (induction acc) auto
  with Cons.prems have "\<forall>(k, v) \<in> set (AList.update d 0 acc). v = 0" by auto
  from Cons.IH[OF this] show ?case by simp
qed

lemma reconstructDailyLevels_p3_value:
  "map_of (reconstructDailyLevels_p3 days adjustments) d =
     (if d \<in> set days then Some (deltas_on d adjustments) else None)"
  by (simp add: reconstructDailyLevels_p3_def add_adjustments_p3_value fold_init_value)

lemma reconstructDailyLevels_p3_keys:
  "distinct days \<Longrightarrow> map fst (reconstructDailyLevels_p3 days adjustments) = days"
  using fold_init_keys[of "[]" days]
  by (simp add: reconstructDailyLevels_p3_def add_adjustments_p3_keys)

lemma reconstructDailyLevels_p2_zero:
  "map_of (reconstructDailyLevels_p2 days adjustments) d =
     (if d \<in> set days then Some 0 else None)"
proof -
  have "\<forall>(k, v) \<in> set (fold (\<lambda>d m. AList.update d (0::int) m) days []). v = 0"
    by (rule fold_init_zero) simp
  then show ?thesis
    by (simp add: reconstructDailyLevels_p2_def add_adjustments_p2_zero fold_init_value)
qed

text \<open>
  C3.  Each day's value is the sum of the deltas dated that day: part_003 does this (lemma
  \<open>reconstructDailyLevels_p3_value\<close>).  part_002 tests \<open>!daily[adj.date]\<close>, which is also
  true for a day that is in the window and still holds its initial 0, so it skips every
  adjustment: one event of +5 on the first of two days leaves both days at 0.
\<close>

theorem reconstructDailyLevels_p2_drops_deltas:
  "reconstructDailyLevels_p2 [''2024-01-01'', ''2024-01-02''] [(''2024-01-01'', 5)]
     = [(''2024-01-01'', 0), (''2024-01-02'', 0)] \<and>
   reconstructDailyLevels_p3 [''2024-01-01'', ''2024-01-02''] [(''2024-01-01'', 5)]
     = [(''2024-01-01'', 5), (''2024-01-02'', 0)]"
  by (simp add: reconstructDailyLevels_p2_def reconstructDailyLevels_p3_def)

section \<open>Properties of the merger\<close>

lemma js_gt_num_or_zero: "js_gt (num_or x (Val 0)) (Val 0) = js_gt x (Val 0)"
  by (cases x) (auto simp: num_or_def)

lemma num_or_zero_pos: "js_gt x (Val 0) \<Longrightarrow> num_or x (Val 0) = x"
  by (cases x) (auto simp: num_or_def)

lemma merge_item_days:
  "days_in_stock_24m (merge_item k sa sh) =
     (case sh of None \<Rightarrow> Val 0 | Some e \<Rightarrow> days_in_stock_24m e)"
  "days_out_of_stock_24m (merge_item k sa sh) =
     (case sh of None \<Rightarrow> Val 0 | Some e \<Rightarrow> days_out_of_stock_24m e)"
  "total_sold_24m (merge_item k sa sh) =
     (case sa of None \<Rightarrow> Val 0 | Some e \<Rightarrow> sales_total_sold_24m e)"
  by (simp_all add: merge_item_def Let_def split: option.splits)

lemma merge_item_rate:
  "in_stock_rate_24m (merge_item k sa sh) =
     (let it = merge_item k sa sh;
          total = js_add (days_in_stock_24m it) (days_out_of_stock_24m it)
      in if js_gt total (Val 0) then Some (js_div (days_in_stock_24m it) total) else None)"
  by (simp add: merge_item_def Let_def js_gt_num_or_zero num_or_zero_pos split: option.splits)

lemma merge_item_velocity:
  "velocity_in_stock_24m (merge_item k sa sh) =
     (let it = merge_item k sa sh
      in if js_gt (days_in_stock_24m it) (Val 0)
         then Some (js_div (total_sold_24m it) (days_in_stock_24m it)) else None)"
  by (simp add: merge_item_def Let_def split: option.splits)

lemma mergeSalesAndSheet_Some:
  "mergeSalesAndSheet salesStats sheetStats k = Some it \<Longrightarrow>
   it = merge_item k (salesStats k) (sheetStats k)"
  by (auto simp: mergeSalesAndSheet_def split: if_splits)

text \<open>
  C7.  In every merged item the in-stock rate is days in stock / (days in stock + days
  out of stock) when that sum is positive and \<open>null\<close> otherwise, and the velocity is total
  sold / days in stock when days in stock is positive and \<open>null\<close> otherwise.  Both
  quotients are only formed under their guard, so nothing is divided by zero; on finite
  counts they are the exact quotients.  A SKU that only the sheet has, with both day
  counts 0, gets the rate \<open>null\<close>.
\<close>

theorem merge_derived_fields:
  assumes "mergeSalesAndSheet salesStats sheetStats k = Some it"
  shows "in_stock_rate_24m it =
           (if js_gt (js_add (days_in_stock_24m it) (days_out_of_stock_24m it)) (Val 0)
            then Some (js_div (days_in_stock_24m it)
                         (js_add (days_in_stock_24m it) (days_out_of_stock_24m it)))
            else None) \<and>
         velocity_in_stock_24m it =
           (if js_gt (days_in_stock_24m it) (Val 0)
            then Some (js_div (total_sold_24m it) (days_in_stock_24m it))
            else None) \<and>
         (\<forall>a b. days_in_stock_24m it = Val a \<and> days_out_of_stock_24m it = Val b \<longrightarrow>
            in_stock_rate_24m it = (if a + b > 0 then Some (Val (a / (a + b))) else None)) \<and>
         (\<forall>a s. days_in_stock_24m it = Val a \<and> total_sold_24m it = Val s \<longrightarrow>
            velocity_in_stock_24m it = (if a > 0 then Some (Val (s / a)) else None)) \<and>
         (\<forall>sh. salesStats k = None \<and> sheetStats k = Some sh \<and>
            days_in_stock_24m sh = Val 0 \<and> days_out_of_stock_24m sh = Val 0 \<longrightarrow>
            in_stock_rate_24m it = None)"
proof -
  have it: "it = merge_item k (salesStats k) (sheetStats k)"
    using assms by (rule mergeSalesAndSheet_Some)
  have r: "in_stock_rate_24m it =
           (if js_gt (js_add (days_in_stock_24m it) (days_out_of_stock_24m it)) (Val 0)
            then Some (js_div (days_in_stock_24m it)
                         (js_add (days_in_stock_24m it) (days_out_of_stock_24m it)))
            else None)"
    unfolding it using merge_item_rate[of k "salesStats k" "sheetStats k"] by (simp add: Let_def)
  have v: "velocity_in_stock_24m it =
           (if js_gt (days_in_stock_24m it) (Val 0)
            then Some (js_div (total_sold_24m it) (days_in_stock_24m it))
            else None)"
    unfolding it using merge_item_velocity[of k "salesStats k" "sheetStats k"] by (simp add: Let_def)
  have r': "in_stock_rate_24m it = (if a + b > 0 then Some (Val (a / (a + b))) else None)"
    if "days_in_stock_24m it = Val a \<and> days_out_of_stock_24m it = Val b" for a b
    using that by (simp add: r)
  have v': "velocity_in_stock_24m it = (if a > 0 then Some (Val (s / a)) else None)"
    if "days_in_stock_24m it = Val a \<and> total_sold_24m it = Val s" for a s
    using that by (simp add: v)
  have z: "in_stock_rate_24m it = None"
    if "salesStats k = None \<and> sheetStats k = Some sh \<and>
        days_in_stock_24m sh = Val 0 \<and> days_out_of_stock_24m sh = Val 0" for sh
  proof -
    from that have "days_in_stock_24m it = Val 0" "days_out_of_stock_24m it = Val 0"
      by (simp_all add: it merge_item_days)
    then show ?thesis by (simp add: r)
  qed
  from r v r' v' z show ?thesis by blast
qed

theorem merge_derived_fields_witness:
  "mergeSalesAndSheet Map.empty [''HAT-053'' \<mapsto> example_sheet 0 0] ''HAT-053''
     = Some (merge_item ''HAT-053'' None (Some (example_sheet 0 0))) \<and>
   in_stock_rate_24m (merge_item ''HAT-053'' None (Some (example_sheet 0 0))) = None \<and>
   velocity_in_stock_24m (merge_item ''HAT-053'' None (Some (example_sheet 0 0))) = None \<and>
   mergeSalesAndSheet [''HAT-053'' \<mapsto> example_sales] [''HAT-053'' \<mapsto> example_sheet 30 10] ''HAT-053''
     = Some (merge_item ''HAT-053'' (Some example_sales) (Some (example_sheet 30 10))) \<and>
   in_stock_rate_24m (merge_item ''HAT-053'' (Some example_sales) (Some (example_sheet 30 10)))
     = Some (Val (3 / 4)) \<and>
   velocity_in_stock_24m (merge_item ''HAT-053'' (Some example_sales) (Some (example_sheet 30 10)))
     = Some (Val (1 / 5))"
proof -
  let ?it0 = "merge_item ''HAT-053'' None (Some (example_sheet 0 0))"
  let ?it1 = "merge_item ''HAT-053'' (Some example_sales) (Some (example_sheet 30 10))"
  have m0: "mergeSalesAndSheet Map.empty [''HAT-053'' \<mapsto> example_sheet 0 0] ''HAT-053'' = Some ?it0"
    by (simp add: mergeSalesAndSheet_def)
  have m1: "mergeSalesAndSheet [''HAT-053'' \<mapsto> example_sales] [''HAT-053'' \<mapsto> example_sheet 30 10]
              ''HAT-053'' = Some ?it1"
    by (simp add: mergeSalesAndSheet_def)
  have d0: "days_in_stock_24m ?it0 = Val 0" "days_out_of_stock_24m ?it0 = Val 0"
    by (simp_all add: merge_item_days example_sheet_def)
  have d1: "days_in_stock_24m ?it1 = Val 30" "days_out_of_stock_24m ?it1 = Val 10"
    "total_sold_24m ?it1 = Val 6"
    by (simp_all add: merge_item_days example_sheet_def example_sales_def)
  have "in_stock_rate_24m ?it0 = None" "velocity_in_stock_24m ?it0 = None"
    using merge_derived_fields[OF m0] d0 by simp_all
  moreover have "in_stock_rate_24m ?it1 = Some (Val (3 / 4))"
    "velocity_in_stock_24m ?it1 = Some (Val (1 / 5))"
    using merge_derived_fields[OF m1] d1 by simp_all
  ultimately show ?thesis using m0 m1 by simp
qed

text \<open>
  C10.  When every sheet entry has finite, non-negative day counts, the in-stock rate of
  every merged item is \<open>null\<close> or a rational number between 0 and 1.
\<close>

theorem in_stock_rate_bounds:
  assumes "\<forall>k sh. sheetStats k = Some sh \<longrightarrow>
             (\<exists>a b. days_in_stock_24m sh = Val a \<and> days_out_of_stock_24m sh = Val b \<and>
                    0 \<le> a \<and> 0 \<le> b)"
    and "mergeSalesAndSheet salesStats sheetStats k = Some it"
  shows "in_stock_rate_24m it = None \<or>
         (\<exists>r. in_stock_rate_24m it = Some (Val r) \<and> 0 \<le> r \<and> r \<le> 1)"
proof -
  have it: "it = merge_item k (salesStats k) (sheetStats k)"
    using assms(2) by (rule mergeSalesAndSheet_Some)
  obtain a b where ab: "days_in_stock_24m it = Val a" "days_out_of_stock_24m it = Val b"
      "0 \<le> a" "0 \<le> b"
  proof (cases "sheetStats k")
    case None
    then show ?thesis using that[of 0 0] by (simp add: it merge_item_days)
  next
    case (Some sh)
    with assms(1) obtain a b where "days_in_stock_24m sh = Val a" "days_out_of_stock_24m sh = Val b"
      "0 \<le> a" "0 \<le> b" by blast
    with Some show ?thesis using that[of a b] by (simp add: it merge_item_days)
  qed
  have rate: "in_stock_rate_24m it = (if a + b > 0 then Some (Val (a / (a + b))) else None)"
    unfolding it using merge_item_rate[of k "salesStats k" "sheetStats k"] ab(1,2)
    by (simp add: Let_def it)
  show ?thesis
  proof (cases "a + b > 0")
    case True
    then have "0 \<le> a / (a + b)" "a / (a + b) \<le> 1" using ab(3,4) by simp_all
    with True rate show ?thesis by simp
  next
    case False
    with rate show ?thesis by simp
  qed
qed

theorem in_stock_rate_bounds_witness:
  "mergeSalesAndSheet [''HAT-053'' \<mapsto> example_sales] [''50002'' \<mapsto> example_sheet 30 10] ''50002''
     = Some (merge_item ''50002'' None (Some (example_sheet 30 10))) \<and>
   (\<exists>r. in_stock_rate_24m (merge_item ''50002'' None (Some (example_sheet 30 10))) = Some (Val r)
        \<and> 0 \<le> r \<and> r \<le> 1)"
proof -
  let ?it = "merge_item ''50002'' None (Some (example_sheet 30 10))"
  have h: "\<forall>k sh. [''50002'' \<mapsto> example_sheet 30 10] k = Some sh \<longrightarrow>
             (\<exists>a b. days_in_stock_24m sh = Val a \<and> days_out_of_stock_24m sh = Val b \<and>
                    0 \<le> a \<and> 0 \<le> b)"
    by (auto simp: example_sheet_def split: if_splits)
  have m: "mergeSalesAndSheet [''HAT-053'' \<mapsto> example_sales] [''50002'' \<mapsto> example_sheet 30 10]
             ''50002'' = Some ?it"
    by (simp add: mergeSalesAndSheet_def)
  have "in_stock_rate_24m ?it \<noteq> None"
    by (simp add: merge_item_def example_sheet_def num_or_def)
  with in_stock_rate_bounds[OF h m] m show ?thesis by simp
qed

section \<open>Properties of the sheet reader\<close>

lemma parseCsv_example:
  "parseCsv example_csv =
     [[''Product variant SKU'', ''Days in stock (at location)'', ''Sell-through rate''],
      [''HAT-053-##'', ''n/a'', ''0%'']]"
  by (simp add: example_csv_def parseCsv_def dquote_def)

text \<open>
  C8.  The claim: a numeric cell that does not parse gives \<open>null\<close> and a cell that parses
  as zero stays zero.  On the example sheet the code does neither: the sell-through rate
  \<open>0%\<close> parses as 0, which \<open>|| null\<close> turns into \<open>null\<close>, and the days-in-stock cell \<open>n/a\<close>
  is stored as \<open>NaN\<close>.  \<open>Number\<close> is a parameter; only its values on \<open>"0"\<close> and \<open>"n/a"\<close>
  are used.
\<close>

theorem sheet_zero_rate_becomes_null:
  assumes "toNumber ''0'' = Val 0" and "toNumber ''n/a'' = NaN"
  shows "\<exists>bySku e. fetchSheetBySku toNumber example_csv = Inr bySku \<and>
           bySku ''HAT-053'' = Some e \<and>
           sell_through_rate_csv e = None \<and>
           days_in_stock_24m e = NaN"
  using assms
  by (simp add: fetchSheetBySku_def parseCsv_example sheet_idx_def sheet_row_def cell_def
      trim_def is_space_def normaliseSku_def suffix_matches_def percent_cell_def
      count_cell_def num_or_null_def Let_def)

theorem sheet_zero_rate_becomes_null_witness:
  "example_toNumber ''0'' = Val 0 \<and> example_toNumber ''n/a'' = NaN \<and>
   (\<exists>bySku e. fetchSheetBySku example_toNumber example_csv = Inr bySku \<and>
           bySku ''HAT-053'' = Some e \<and>
           sell_through_rate_csv e = None \<and>
           days_in_stock_24m e = NaN)"
proof -
  have a: "example_toNumber ''0'' = Val 0" by (simp add: example_toNumber_def)
  have b: "example_toNumber ''n/a'' = NaN" by (simp add: example_toNumber_def)
  from a b sheet_zero_rate_becomes_null[OF a b] show ?thesis by simp
qed

section \<open>Properties of the paged fetch loops\<close>

lemma gql_tokens_Cons2:
  "gql_tokens (p # q # ps) = Some (ge_cursor (last (gp_edges p))) # gql_tokens (q # ps)"
  by (simp add: gql_tokens_def)

lemma rest_tokens_Cons2:
  "rest_tokens (p # q # ps) = rel_next_pointer (rp_link p) # rest_tokens (q # ps)"
  by (simp add: rest_tokens_def)

text \<open>
  Where the metadata holds a single link, what the loop extracts is the pointer the
  metadata carries.
\<close>

lemma single_link_next_cursor: "single_link l \<Longrightarrow> next_cursor l = rel_next_pointer l"
  by (cases l) (auto simp: single_link_def next_cursor_def rel_next_pointer_def)

lemma fetchAllVariants_loop_collection:
  "gql_collection upstream cursor pages \<Longrightarrow>
   fetchAllVariants_loop upstream cursor sent variants =
     Some (Inr (sent @ cursor # gql_tokens pages, variants @ concat (map gql_kept pages)))"
proof (induction upstream cursor pages arbitrary: sent variants rule: gql_collection.induct)
  case (1 upstream cursor)
  then show ?case by simp
next
  case (2 upstream cursor p)
  then show ?case
    by (subst fetchAllVariants_loop.simps) (simp add: gql_tokens_def)
next
  case (3 upstream cursor p q ps)
  from "3.prems" have up: "upstream cursor = Inr p" and nx: "gp_hasNextPage p"
    and ne: "gp_edges p \<noteq> []"
    and rest: "gql_collection upstream (Some (ge_cursor (last (gp_edges p)))) (q # ps)"
    by simp_all
  have "fetchAllVariants_loop upstream cursor sent variants =
        fetchAllVariants_loop upstream (Some (ge_cursor (last (gp_edges p))))
          (sent @ [cursor]) (variants @ gql_kept p)"
    by (subst fetchAllVariants_loop.simps) (simp add: up nx ne)
  also have "\<dots> = Some (Inr ((sent @ [cursor]) @ Some (ge_cursor (last (gp_edges p))) # gql_tokens (q # ps),
                    (variants @ gql_kept p) @ concat (map gql_kept (q # ps))))"
    by (rule "3.IH"[OF rest])
  finally show ?case by (simp add: gql_tokens_Cons2)
qed

lemma fetchVariants_loop_collection:
  "rest_collection upstream cursor pages \<Longrightarrow> \<forall>p \<in> set pages. single_link (rp_link p) \<Longrightarrow>
   fetchVariants_loop upstream cursor sent variants =
     Some (Inr (sent @ cursor # rest_tokens pages, variants @ concat (map rest_kept pages)))"
proof (induction upstream cursor pages arbitrary: sent variants rule: rest_collection.induct)
  case (1 upstream cursor)
  then show ?case by simp
next
  case (2 upstream cursor p)
  from "2.prems" have "next_cursor (rp_link p) = None" "upstream cursor = Inr p"
    by (simp_all add: single_link_next_cursor)
  then show ?case
    by (subst fetchVariants_loop.simps) (simp add: rest_tokens_def)
next
  case (3 upstream cursor p q ps)
  from "3.prems"(1) obtain c where up: "upstream cursor = Inr p"
    and nx: "rel_next_pointer (rp_link p) = Some c"
    and rest: "rest_collection upstream (rel_next_pointer (rp_link p)) (q # ps)"
    by auto
  from "3.prems"(2) have sl: "\<forall>x \<in> set (q # ps). single_link (rp_link x)"
    and nc: "next_cursor (rp_link p) = Some c"
    by (simp_all add: single_link_next_cursor nx)
  have "fetchVariants_loop upstream cursor sent variants =
        fetchVariants_loop upstream (rel_next_pointer (rp_link p))
          (sent @ [cursor]) (variants @ rest_kept p)"
    by (subst fetchVariants_loop.simps) (simp add: up nx nc)
  also have "\<dots> = Some (Inr ((sent @ [cursor]) @ rel_next_pointer (rp_link p) # rest_tokens (q # ps),
                    (variants @ rest_kept p) @ concat (map rest_kept (q # ps))))"
    by (rule "3.IH"[OF rest sl])
  finally show ?case by (simp add: rest_tokens_Cons2)
qed

text \<open>A failed request ends either loop with the error, whatever was collected before.\<close>

lemma fetchAllVariants_loop_error:
  "shopifyGraphQL cursor = Inl e \<Longrightarrow>
   fetchAllVariants_loop shopifyGraphQL cursor sent variants = Some (Inl e)"
  by (subst fetchAllVariants_loop.simps) simp

lemma fetchVariants_loop_error:
  "shopifyGET cursor = Inl e \<Longrightarrow>
   fetchVariants_loop shopifyGET cursor sent variants = Some (Inl e)"
  by (subst fetchVariants_loop.simps) simp

text \<open>
  A page that announces a next page but has no edge: \<open>edges[edges.length - 1]\<close> is
  \<open>undefined\<close> and reading its \<open>cursor\<close> throws.
\<close>

lemma fetchAllVariants_loop_no_edges:
  "shopifyGraphQL cursor = Inr data \<Longrightarrow> gp_hasNextPage data \<Longrightarrow> gp_edges data = [] \<Longrightarrow>
   fetchAllVariants_loop shopifyGraphQL cursor sent variants = Some (Inl TypeError)"
  by (subst fetchAllVariants_loop.simps) simp

text \<open>
  On a page whose metadata holds two links, the REST loop takes the \<open>page_info\<close> of the
  first one, here the link back, where the metadata points on to the third page.  On the
  catalog of three pages it therefore goes from the second page back to the first, and
  never returns.
\<close>

lemma three_page_cursors:
  "next_cursor (rp_link three_page1) = Some ''p2''"
  "next_cursor (rp_link three_page2) = Some ''p1''"
  "rel_next_pointer (rp_link three_page2) = Some ''p3''"
  by (simp_all add: next_cursor_def rel_next_pointer_def link_entries_def three_page1_def
      three_page2_def link_to_def rel_next_def dquote_def)

lemma three_page_collection:
  "rest_collection three_page_upstream None [three_page1, three_page2, three_page3]"
  by (simp add: rel_next_pointer_def link_entries_def three_page1_def
      three_page2_def three_page3_def three_page_upstream_def link_to_def rel_next_def dquote_def)

lemma fetchVariants_loop_cycles:
  assumes "fetchVariants_loop upstream cursor sent variants = Some y"
  shows "upstream = three_page_upstream \<longrightarrow> cursor \<in> {None, Some ''p1'', Some ''p2''} \<longrightarrow> False"
proof (rule fetchVariants_loop.raw_induct
    [where P = "\<lambda>u c s v y. u = three_page_upstream \<longrightarrow> c \<in> {None, Some ''p1'', Some ''p2''} \<longrightarrow> False",
     OF _ assms])
  fix loop :: "(string option \<Rightarrow> error + rest_page) \<Rightarrow> string option \<Rightarrow> string option list
     \<Rightarrow> variant_ref list \<Rightarrow> (error + string option list \<times> variant_ref list) option"
  fix shopifyGET c s v r
  assume IH: "\<And>c s v b y. loop c s v b = Some y \<Longrightarrow>
                c = three_page_upstream \<longrightarrow> s \<in> {None, Some ''p1'', Some ''p2''} \<longrightarrow> False"
  assume body: "(case shopifyGET c of
                   Inl e \<Rightarrow> Some (Inl e)
                 | Inr json \<Rightarrow>
                     (case next_cursor (rp_link json) of
                        None \<Rightarrow> Some (Inr (s @ [c], v @ rest_kept json))
                      | Some ca \<Rightarrow> loop shopifyGET (Some ca) (s @ [c]) (v @ rest_kept json))) = Some r"
  show "shopifyGET = three_page_upstream \<longrightarrow> c \<in> {None, Some ''p1'', Some ''p2''} \<longrightarrow> False"
  proof (intro impI)
    assume u: "shopifyGET = three_page_upstream"
      and c: "c \<in> {None, Some ''p1'', Some ''p2''}"
    from c consider "c = None \<or> c = Some ''p1''" | "c = Some ''p2''"
      by auto
    then show False
    proof cases
      case 1
      with u have "shopifyGET c = Inr three_page1"
        by (auto simp: three_page_upstream_def)
      with body have "loop shopifyGET (Some ''p2'') (s @ [c]) (v @ rest_kept three_page1) = Some r"
        by (simp add: three_page_cursors)
      from IH[OF this] u show False by simp
    next
      case 2
      with u have "shopifyGET c = Inr three_page2"
        by (auto simp: three_page_upstream_def)
      with body have "loop shopifyGET (Some ''p1'') (s @ [c]) (v @ rest_kept three_page2) = Some r"
        by (simp add: three_page_cursors)
      from IH[OF this] u show False by simp
    qed
  qed
qed

lemma fetchVariants_three_pages_never_returns: "fetchVariants three_page_upstream = None"
proof (cases "fetchVariants three_page_upstream")
  case None
  then show ?thesis .
next
  case (Some y)
  then have False
    using fetchVariants_loop_cycles[of three_page_upstream None "[]" "[]" y]
    by (simp add: fetchVariants_def)
  then show ?thesis ..
qed

text \<open>
  C4, as stated: the loop returns the concatenation of all the records of all pages.  It
  does not: a variant without SKU (or without inventory item id) is skipped, so a catalog
  of one page whose only variant has no SKU is fetched as the empty list.
\<close>

theorem fetchAllVariants_drops_records:
  "gql_collection upstream_without_sku None [page_without_sku] \<and>
   fetchAllVariants upstream_without_sku = Some (Inr ([None], [])) \<and>
   fetchAllVariants upstream_without_sku
     \<noteq> Some (Inr ([None], concat (map gql_records [page_without_sku])))"
  by (simp add: fetchAllVariants_def fetchAllVariants_loop.simps upstream_without_sku_def
      page_without_sku_def gql_kept_def gql_records_def truthy_str_def)

text \<open>
  C4, amended.  For every paged collection whose pages all arrive, the loop returns; it
  has sent one request without a token and then one request for the continuation token of
  every page but the last, in that order, and none after the first page without a token;
  and it returns, in arrival order, the concatenation over all pages of the records that
  have both a SKU and an inventory item id.  The token of a GraphQL page
  (\<open>fetchAllVariants\<close>, inventory-report.js) is its has-next-page flag with the cursor of
  its last edge; the token of a REST page (\<open>fetchVariants\<close>, part_004) is the \<open>page_info\<close>
  of the link marked \<open>rel="next"\<close> in its metadata, and the REST part is stated for pages
  whose metadata holds a single link.
\<close>

theorem paged_fetch_collects_kept_records:
  assumes "gql_collection shopifyGraphQL None gpages"
    and "rest_collection shopifyGET None rpages"
    and "\<forall>p \<in> set rpages. single_link (rp_link p)"
  shows "fetchAllVariants shopifyGraphQL =
           Some (Inr (None # gql_tokens gpages, concat (map gql_kept gpages))) \<and>
         fetchVariants shopifyGET =
           Some (Inr (None # rest_tokens rpages, concat (map rest_kept rpages)))"
  using fetchAllVariants_loop_collection[OF assms(1), of "[]" "[]"]
    fetchVariants_loop_collection[OF assms(2,3), of "[]" "[]"]
  by (simp add: fetchAllVariants_def fetchVariants_def)

theorem paged_fetch_collects_kept_records_witness:
  "gql_collection example_gql_upstream None [example_gql_page1, example_gql_page2] \<and>
   rest_collection example_rest_upstream None [example_rest_page1, example_rest_page2] \<and>
   single_link (rp_link example_rest_page1) \<and> single_link (rp_link example_rest_page2) \<and>
   fetchAllVariants example_gql_upstream =
     Some (Inr ([None, Some ''c1''],
                [\<lparr>gv_id = ''v1'', gv_sku = Some ''HAT-053'', gv_inventoryItem = Some ''i1''\<rparr>,
                 \<lparr>gv_id = ''v3'', gv_sku = Some ''50002'', gv_inventoryItem = Some ''i3''\<rparr>])) \<and>
   fetchVariants example_rest_upstream =
     Some (Inr ([None, Some ''abc''],
                [\<lparr>vr_sku = ''HAT-053'', vr_variantId = 1, vr_inventoryItemId = 11\<rparr>,
                 \<lparr>vr_sku = ''50002'', vr_variantId = 3, vr_inventoryItemId = 13\<rparr>]))"
proof -
  have g: "gql_collection example_gql_upstream None [example_gql_page1, example_gql_page2]"
    by (simp add: example_gql_upstream_def example_gql_page1_def example_gql_page2_def)
  have n1: "rel_next_pointer (rp_link example_rest_page1) = Some ''abc''"
    by (simp add: rel_next_pointer_def link_entries_def example_rest_page1_def link_to_def
        rel_next_def dquote_def)
  have n2: "rel_next_pointer (rp_link example_rest_page2) = None"
    by (simp add: rel_next_pointer_def link_entries_def example_rest_page2_def link_to_def
        rel_next_def dquote_def)
  have r: "rest_collection example_rest_upstream None [example_rest_page1, example_rest_page2]"
    by (simp add: example_rest_upstream_def n1 n2)
  have s1: "single_link (rp_link example_rest_page1)"
    by (simp add: single_link_def link_entries_def example_rest_page1_def link_to_def dquote_def)
  have s2: "single_link (rp_link example_rest_page2)"
    by (simp add: single_link_def link_entries_def example_rest_page2_def link_to_def dquote_def)
  have s: "\<forall>p \<in> set [example_rest_page1, example_rest_page2]. single_link (rp_link p)"
    using s1 s2 by simp
  have gt: "gql_tokens [example_gql_page1, example_gql_page2] = [Some ''c1'']"
    by (simp add: gql_tokens_def example_gql_page1_def)
  have rt: "rest_tokens [example_rest_page1, example_rest_page2] = [Some ''abc'']"
    by (simp add: rest_tokens_def n1)
  have gk: "concat (map gql_kept [example_gql_page1, example_gql_page2]) =
            [\<lparr>gv_id = ''v1'', gv_sku = Some ''HAT-053'', gv_inventoryItem = Some ''i1''\<rparr>,
             \<lparr>gv_id = ''v3'', gv_sku = Some ''50002'', gv_inventoryItem = Some ''i3''\<rparr>]"
    by (simp add: gql_kept_def example_gql_page1_def example_gql_page2_def truthy_str_def)
  have rk: "concat (map rest_kept [example_rest_page1, example_rest_page2]) =
            [\<lparr>vr_sku = ''HAT-053'', vr_variantId = 1, vr_inventoryItemId = 11\<rparr>,
             \<lparr>vr_sku = ''50002'', vr_variantId = 3, vr_inventoryItemId = 13\<rparr>]"
    by (simp add: rest_kept_def example_rest_page1_def example_rest_page2_def)
  from paged_fetch_collects_kept_records[OF g r s] g r s1 s2 show ?thesis
    by (simp only: gt rt gk rk simp_thms)
qed

end
